theory Spec2Isabelle
  imports Complex_Main "HOL-Library.Multiset"
begin

section \<open>Tensors, errors and the tensor-library primitives the layers call\<close>

text \<open>
  A one-dimensional tensor is a list of numbers, a two-dimensional tensor a list of rows.
  Floating-point numbers are read as real numbers: rounding and overflow are not modelled.
  Node and relation identifiers are natural numbers (the index tensors of the layers hold
  non-negative identifiers).  An empty matrix carries no width.
\<close>

type_synonym vec = "real list"
type_synonym mat = "real list list"

text \<open>An edge is a row \<open>(source, relation, destination)\<close> of the edge tensor.\<close>

type_synonym edge = "nat \<times> nat \<times> nat"

definition e_src :: "edge \<Rightarrow> nat" where
  "e_src e = fst e"

definition e_rel :: "edge \<Rightarrow> nat" where
  "e_rel e = fst (snd e)"

definition e_dst :: "edge \<Rightarrow> nat" where
  "e_dst e = snd (snd e)"

text \<open>The exceptions of Python and of the tensor library, as values.\<close>

datatype error = IndexError | TypeError | AttributeError | RuntimeError | ValueError

definition bindE :: "error + 'a \<Rightarrow> ('a \<Rightarrow> error + 'b) \<Rightarrow> error + 'b" where
  "bindE m f = (case m of Inl e \<Rightarrow> Inl e | Inr v \<Rightarrow> f v)"

fun sequenceE :: "(error + 'a) list \<Rightarrow> error + 'a list" where
  "sequenceE [] = Inr []"
| "sequenceE (x # xs) =
     (case x of Inl e \<Rightarrow> Inl e
      | Inr v \<Rightarrow> (case sequenceE xs of Inl e \<Rightarrow> Inl e | Inr vs \<Rightarrow> Inr (v # vs)))"

text \<open>
  Broadcasting of an elementwise binary operation along one dimension: equal sizes pair up,
  a size of one is repeated, anything else is a shape error.
\<close>

definition broadcast2 :: "('a \<Rightarrow> 'b \<Rightarrow> 'c) \<Rightarrow> 'a list \<Rightarrow> 'b list \<Rightarrow> error + 'c list" where
  "broadcast2 f a b =
     (if length a = length b then Inr (map2 f a b)
      else if length a = 1 then Inr (map (f (hd a)) b)
      else if length b = 1 then Inr (map (\<lambda>x. f x (hd b)) a)
      else Inl RuntimeError)"

text \<open>The same over the rows and then the columns of two matrices.\<close>

definition broadcast2m :: "(real \<Rightarrow> real \<Rightarrow> real) \<Rightarrow> mat \<Rightarrow> mat \<Rightarrow> error + mat" where
  "broadcast2m f A B = bindE (broadcast2 (broadcast2 f) A B) sequenceE"

text \<open>\<open>x[idx]\<close> with an index tensor: the rows of \<open>x\<close> at the positions \<open>idx\<close>.\<close>

definition take_rows :: "'a list \<Rightarrow> nat list \<Rightarrow> error + 'a list" where
  "take_rows xs idx =
     (if \<forall>i \<in> set idx. i < length xs then Inr (map ((!) xs) idx) else Inl IndexError)"

text \<open>\<open>x[i]\<close> with one integer.\<close>

definition take_row :: "'a list \<Rightarrow> nat \<Rightarrow> error + 'a" where
  "take_row xs i = (if i < length xs then Inr (xs ! i) else Inl IndexError)"

text \<open>\<open>x[idx] = vals\<close> with an index tensor without repetitions: the writes happen in the
  order of \<open>idx\<close>.\<close>

definition put_rows :: "'a list \<Rightarrow> nat list \<Rightarrow> 'a list \<Rightarrow> error + 'a list" where
  "put_rows xs idx vals =
     (if \<not> (\<forall>i \<in> set idx. i < length xs) then Inl IndexError
      else if length vals \<noteq> length idx then Inl RuntimeError
      else Inr (fold (\<lambda>(i, v) acc. acc[i := v]) (zip idx vals) xs))"

text \<open>
  \<open>x[idx] = vals\<close> with an index tensor that may repeat a position.  The tensor library
  leaves open which of the writes to one position remains (on the CPU it is the last).
  The choice is the argument \<open>winner\<close>: from the positions in \<open>idx\<close> that write to one
  entry, in ascending order, it picks the one whose value remains.
\<close>

definition writes_to :: "nat list \<Rightarrow> nat \<Rightarrow> nat list" where
  "writes_to idx i = filter (\<lambda>k. idx ! k = i) [0 ..< length idx]"

definition valid_winner :: "(nat list \<Rightarrow> nat) \<Rightarrow> bool" where
  "valid_winner winner = (\<forall>ks. ks \<noteq> [] \<longrightarrow> winner ks \<in> set ks)"

definition index_put ::
  "(nat list \<Rightarrow> nat) \<Rightarrow> 'a list \<Rightarrow> nat list \<Rightarrow> 'a list \<Rightarrow> error + 'a list" where
  "index_put winner xs idx vals =
     (if \<not> (\<forall>i \<in> set idx. i < length xs) then Inl IndexError
      else if length vals \<noteq> length idx then Inl RuntimeError
      else Inr (map (\<lambda>i. case writes_to idx i of [] \<Rightarrow> xs ! i | k # ks \<Rightarrow> vals ! winner (k # ks))
                  [0 ..< length xs]))"

definition zeros :: "nat \<Rightarrow> nat \<Rightarrow> mat" where
  "zeros n d = replicate n (replicate d 0)"

definition ncols :: "'a list list \<Rightarrow> nat" where
  "ncols m = (case m of [] \<Rightarrow> 0 | r # _ \<Rightarrow> length r)"

subsection \<open>torch.unique\<close>

text \<open>The sorted distinct values, the position of every input value among them
  (\<open>return_inverse\<close>) and the multiplicity of every distinct value (\<open>return_counts\<close>).\<close>

definition unique :: "nat list \<Rightarrow> nat list" where
  "unique des = sort (remdups des)"

fun pos_in :: "nat list \<Rightarrow> nat \<Rightarrow> nat" where
  "pos_in [] d = 0"
| "pos_in (x # xs) d = (if x = d then 0 else Suc (pos_in xs d))"

definition unique_inverse :: "nat list \<Rightarrow> nat list" where
  "unique_inverse des = map (pos_in (unique des)) des"

definition unique_counts :: "nat list \<Rightarrow> nat list" where
  "unique_counts des = map (count_list des) (unique des)"

subsection \<open>scatter-add along dimension 0\<close>

text \<open>
  Every layer scatters with an index tensor whose row \<open>i\<close> holds one position \<open>p\<^sub>i\<close> in
  each of its \<open>w\<close> columns, so the first \<open>w\<close> entries of source row \<open>i\<close> are added to the
  first \<open>w\<close> entries of row \<open>p\<^sub>i\<close> of the target.  The index may have no more rows than the
  source and no more columns than the source and the target; every position must be a row
  of the target.  An index tensor with no element leaves the target as it is.
\<close>

definition add_prefix :: "nat \<Rightarrow> vec \<Rightarrow> vec \<Rightarrow> vec" where
  "add_prefix w a m = map2 (+) (take w a) (take w m) @ drop w a"

definition scatter_add0 :: "nat \<Rightarrow> mat \<Rightarrow> nat list \<Rightarrow> mat \<Rightarrow> error + mat" where
  "scatter_add0 w target idx source =
     (if idx = [] \<or> w = 0 then Inr target
      else if length source < length idx \<or> ncols source < w \<or> ncols target < w
              \<or> \<not> (\<forall>p \<in> set idx. p < length target)
      then Inl RuntimeError
      else Inr (fold (\<lambda>(p, m) acc. acc[p := add_prefix w (acc ! p) m]) (zip idx source) target))"

subsection \<open>nn.Linear\<close>

text \<open>\<open>y = x W\<^sup>T + b\<close>, with \<open>W\<close> of shape \<open>(out_features, in_features)\<close>; the bias is
  absent when the layer is built with \<open>bias=False\<close>.\<close>

record Linear =
  in_features :: nat
  lin_weight :: mat
  lin_bias :: "vec option"

definition dot :: "vec \<Rightarrow> vec \<Rightarrow> real" where
  "dot a b = sum_list (map2 (*) a b)"

definition Linear_row :: "Linear \<Rightarrow> vec \<Rightarrow> vec" where
  "Linear_row L x =
     (let y = map (\<lambda>w. dot x w) (lin_weight L)
      in case lin_bias L of None \<Rightarrow> y | Some b \<Rightarrow> map2 (+) y b)"

definition Linear_forward :: "Linear \<Rightarrow> mat \<Rightarrow> error + mat" where
  "Linear_forward L X =
     (if \<forall>x \<in> set X. length x = in_features L then Inr (map (Linear_row L) X)
      else Inl RuntimeError)"

section \<open>CompGCNLayer\<close>

record CompGCNLayer =
  comp_output_dim :: nat
  num_rela :: nat
  W_o :: Linear
  W_i :: Linear
  W_s :: Linear
  W_r :: Linear

text \<open>
  \<open>composition(node_embed, rela_embed, mode)\<close>.  The result \<open>None\<close> is Python's
  \<open>None\<close>, returned for every mode other than \<open>'add'\<close>, \<open>'sub'\<close> and \<open>'mult'\<close>.
\<close>

definition composition :: "mat \<Rightarrow> mat \<Rightarrow> string \<Rightarrow> error + mat option" where
  "composition node_embed rela_embed mode =
     (if mode = ''add'' then bindE (broadcast2m (+) node_embed rela_embed) (\<lambda>res. Inr (Some res))
      else if mode = ''sub'' then bindE (broadcast2m (-) node_embed rela_embed) (\<lambda>res. Inr (Some res))
      else if mode = ''mult'' then bindE (broadcast2m (*) node_embed rela_embed) (\<lambda>res. Inr (Some res))
      else Inr None)"

text \<open>
  \<open>aggregate(message, des)\<close>: \<open>des_index.unsqueeze(1).expand_as(message)\<close> repeats a
  single index row over all message rows and is a shape error for any other mismatch.
\<close>

definition expand_rows :: "nat \<Rightarrow> 'a list \<Rightarrow> error + 'a list" where
  "expand_rows n xs =
     (if length xs = n then Inr xs
      else if length xs = 1 then Inr (replicate n (hd xs))
      else Inl RuntimeError)"

definition CompGCN_aggregate :: "mat \<Rightarrow> nat list \<Rightarrow> error + (nat list \<times> mat)" where
  "CompGCN_aggregate message des =
     (let des_unique = unique des; des_index = unique_inverse des
      in bindE (expand_rows (length message) des_index) (\<lambda>index.
         bindE (scatter_add0 (ncols message) (zeros (length des_unique) (ncols message)) index message)
           (\<lambda>message. Inr (des_unique, message))))"

text \<open>
  \<open>h[des_index] = h[des_index] + message\<close>: the rows at \<open>des_index\<close> are read, the
  message is added with broadcasting, and the sum is written back; a sum whose shape is not
  the shape of the rows read cannot be assigned.
\<close>

definition send_message :: "mat \<Rightarrow> nat list \<Rightarrow> mat \<Rightarrow> error + mat" where
  "send_message h des_index message =
     bindE (take_rows h des_index) (\<lambda>rows.
     bindE (broadcast2m (+) rows message) (\<lambda>s.
       if map length s = map length rows then put_rows h des_index s else Inl RuntimeError))"

text \<open>The rows of the edge tensor selected by a boolean mask on the relation column.\<close>

definition original_edges :: "CompGCNLayer \<Rightarrow> edge list \<Rightarrow> edge list" where
  "original_edges L edges = filter (\<lambda>e. e_rel e < num_rela L) edges"

definition reversed_edges :: "CompGCNLayer \<Rightarrow> edge list \<Rightarrow> edge list" where
  "reversed_edges L edges = filter (\<lambda>e. e_rel e \<ge> num_rela L) edges"

text \<open>A linear layer applied to the result of \<open>composition\<close>; applied to \<open>None\<close> it
  raises a type error.\<close>

definition Linear_opt :: "Linear \<Rightarrow> mat option \<Rightarrow> error + mat" where
  "Linear_opt W x = (case x of None \<Rightarrow> Inl TypeError | Some x' \<Rightarrow> Linear_forward W x')"

text \<open>
  The block that \<open>forward\<close> runs once for the original edges with \<open>W_o\<close> and once for the
  reversed edges with \<open>W_s\<close>; \<open>index_matrix\<close> is the same tensor in both runs.  The
  composition of the edge messages is called without a mode, so with \<open>'add'\<close>.  The
  destinations written to \<open>index_matrix\<close> may repeat, so the block depends on \<open>winner\<close>.
\<close>

definition CompGCN_edge_block ::
  "(nat list \<Rightarrow> nat) \<Rightarrow> Linear \<Rightarrow> mat \<Rightarrow> mat \<Rightarrow> nat list \<Rightarrow> mat \<Rightarrow> edge list
     \<Rightarrow> error + (nat list \<times> mat)" where
  "CompGCN_edge_block winner W node_embed rela_embed index_matrix h_v sel =
     (let src = map e_src sel; rela = map e_rel sel; des = map e_dst sel
      in bindE (index_put winner index_matrix des [0 ..< length des]) (\<lambda>index_matrix.
         bindE (take_rows node_embed src) (\<lambda>xs.
         bindE (take_rows rela_embed rela) (\<lambda>rs.
         bindE (composition xs rs ''add'') (\<lambda>c.
         bindE (Linear_opt W c) (\<lambda>message.
         bindE (take_rows index_matrix des) (\<lambda>order.
         bindE (take_rows message order) (\<lambda>message.
         bindE (CompGCN_aggregate message des) (\<lambda>(des_index, message).
         bindE (send_message h_v des_index message) (\<lambda>h_v.
           Inr (index_matrix, h_v)))))))))))"

definition CompGCN_forward ::
  "(nat list \<Rightarrow> nat) \<Rightarrow> CompGCNLayer \<Rightarrow> mat \<Rightarrow> mat \<Rightarrow> edge list \<Rightarrow> string
     \<Rightarrow> error + (mat \<times> mat)" where
  "CompGCN_forward winner L node_embed rela_embed edges mode =
     bindE (take_row rela_embed (num_rela L * 2)) (\<lambda>loop.
     bindE (composition node_embed [loop] mode) (\<lambda>c.
     bindE (Linear_opt (W_i L) c) (\<lambda>h_v.
     bindE (CompGCN_edge_block winner (W_o L) node_embed rela_embed
              (replicate (length node_embed) 0) h_v (original_edges L edges)) (\<lambda>(index_matrix, h_v).
     bindE (CompGCN_edge_block winner (W_s L) node_embed rela_embed
              index_matrix h_v (reversed_edges L edges)) (\<lambda>(index_matrix, h_v).
     bindE (Linear_forward (W_r L) rela_embed) (\<lambda>h_r.
       Inr (h_v, h_r)))))))"

section \<open>RGCNLayer\<close>

text \<open>\<open>weight\<close> has shape \<open>(num_rels, input_dim, output_dim)\<close>, \<open>self_loop_weigt\<close>
  shape \<open>(input_dim, output_dim)\<close>.\<close>

record RGCNLayer =
  rgcn_input_dim :: nat
  rgcn_output_dim :: nat
  num_rels :: nat
  weight :: "mat list"
  self_loop_weigt :: mat

text \<open>A row vector times an \<open>(input_dim, output_dim)\<close> matrix.  The product has the
  width of the matrix; for a matrix without rows (\<open>input_dim = 0\<close>) that is the width
  \<open>out\<close> the layer was built with.\<close>

definition vec_mat :: "nat \<Rightarrow> vec \<Rightarrow> mat \<Rightarrow> error + vec" where
  "vec_mat out x W =
     (if length x = length W
      then Inr (map (\<lambda>j. sum_list (map2 (\<lambda>xk wk. xk * wk ! j) x W))
                  [0 ..< (case W of [] \<Rightarrow> out | row # _ \<Rightarrow> length row)])
      else Inl RuntimeError)"

text \<open>\<open>torch.bmm(src_h.unsqueeze(1), weight).squeeze(1)\<close>: row \<open>i\<close> times matrix \<open>i\<close>.\<close>

definition bmm :: "nat \<Rightarrow> mat \<Rightarrow> mat list \<Rightarrow> error + mat" where
  "bmm out xs Ws =
     (if length xs = length Ws then sequenceE (map2 (vec_mat out) xs Ws) else Inl RuntimeError)"

definition mm :: "nat \<Rightarrow> mat \<Rightarrow> mat \<Rightarrow> error + mat" where
  "mm out xs W = sequenceE (map (\<lambda>x. vec_mat out x W) xs)"

definition div_rows :: "mat \<Rightarrow> nat list \<Rightarrow> mat" where
  "div_rows m counts = map2 (\<lambda>row c. map (\<lambda>x. x / real c) row) m counts"

definition RGCN_aggregate :: "mat \<Rightarrow> nat list \<Rightarrow> error + (nat list \<times> mat)" where
  "RGCN_aggregate message des =
     (let des_unique = unique des; des_index = unique_inverse des; counts = unique_counts des
      in bindE (expand_rows (length message) des_index) (\<lambda>index.
         bindE (scatter_add0 (ncols message) (zeros (length des_unique) (ncols message)) index message)
           (\<lambda>message. Inr (des_unique, div_rows message counts))))"

text \<open>The destinations written to \<open>index_matrix\<close> may repeat, so \<open>forward\<close> depends on
  \<open>winner\<close>.\<close>

definition RGCN_forward ::
  "(nat list \<Rightarrow> nat) \<Rightarrow> RGCNLayer \<Rightarrow> mat \<Rightarrow> edge list \<Rightarrow> error + mat" where
  "RGCN_forward winner L h edges =
     (let src = map e_src edges; rel = map e_rel edges; dst = map e_dst edges
      in bindE (take_rows h src) (\<lambda>src_h.
         bindE (take_rows (weight L) rel) (\<lambda>ws.
         bindE (index_put winner (replicate (length h) 0) dst [0 ..< length dst]) (\<lambda>index_matrix.
         bindE (bmm (rgcn_output_dim L) src_h ws) (\<lambda>msg.
         bindE (take_rows index_matrix dst) (\<lambda>order.
         bindE (take_rows msg order) (\<lambda>msg.
         bindE (RGCN_aggregate msg dst) (\<lambda>(dst_index, msg).
         bindE (mm (rgcn_output_dim L) h (self_loop_weigt L)) (\<lambda>out.
           send_message out dst_index msg)))))))))"

section \<open>Activations\<close>

text \<open>
  The activation modules of the tensor library.  \<open>RReLU\<close> keeps a non-negative entry and
  multiplies a negative one by a slope: in training mode (the mode of a freshly built
  module) a slope drawn at random between \<open>1/8\<close> and \<open>1/3\<close> for that entry, in evaluation
  mode the fixed slope \<open>(1/8 + 1/3) / 2\<close>.  The slopes drawn during one call are the
  argument \<open>noise\<close>, indexed by row and column.
\<close>

datatype activation = RReLU | Sigmoid | Tanh | ReLU

definition activation_entry :: "activation \<Rightarrow> bool \<Rightarrow> real \<Rightarrow> real \<Rightarrow> real" where
  "activation_entry a training slope x =
     (case a of
        RReLU \<Rightarrow> (if x \<ge> 0 then x else (if training then slope else (1 / 8 + 1 / 3) / 2) * x)
      | Sigmoid \<Rightarrow> 1 / (1 + exp (- x))
      | Tanh \<Rightarrow> tanh x
      | ReLU \<Rightarrow> max 0 x)"

definition activate :: "activation \<Rightarrow> bool \<Rightarrow> (nat \<Rightarrow> nat \<Rightarrow> real) \<Rightarrow> mat \<Rightarrow> mat" where
  "activate a training noise h =
     map (\<lambda>(i, row). map (\<lambda>(j, x). activation_entry a training (noise i j) x) (enumerate 0 row))
       (enumerate 0 h)"

section \<open>REGCNLayer\<close>

text \<open>\<open>regcn_active = None\<close>: the attribute \<open>active\<close> was never assigned.\<close>

record REGCNLayer =
  regcn_input_dim :: nat
  regcn_output_dim :: nat
  fc_self :: Linear
  fc_aggregate :: Linear
  regcn_active :: "activation option"
  regcn_training :: bool

text \<open>
  The constructor.  The initial weights and biases of the two linear layers, which the
  library draws at random, are the arguments \<open>w_self\<close>, \<open>b_self\<close>, \<open>w_agg\<close>, \<open>b_agg\<close>.
\<close>

definition REGCN_init ::
  "nat \<Rightarrow> nat \<Rightarrow> bool \<Rightarrow> string \<Rightarrow> mat \<Rightarrow> vec \<Rightarrow> mat \<Rightarrow> vec \<Rightarrow> REGCNLayer" where
  "REGCN_init input_dim output_dim bias active w_self b_self w_agg b_agg =
     \<lparr>regcn_input_dim = input_dim,
      regcn_output_dim = output_dim,
      fc_self = \<lparr>in_features = input_dim, lin_weight = w_self,
                 lin_bias = (if bias then Some b_self else None)\<rparr>,
      fc_aggregate = \<lparr>in_features = input_dim, lin_weight = w_agg,
                      lin_bias = (if bias then Some b_agg else None)\<rparr>,
      regcn_active =
        (if active = ''rrelu'' then Some RReLU
         else if active = ''sigmoid'' then Some Sigmoid
         else if active = ''tanh'' then Some Tanh
         else None),
      regcn_training = True\<rparr>"

definition REGCN_calculate_message :: "REGCNLayer \<Rightarrow> mat \<Rightarrow> mat \<Rightarrow> error + mat" where
  "REGCN_calculate_message L src rela =
     bindE (broadcast2m (+) src rela) (Linear_forward (fc_aggregate L))"

text \<open>
  The sparse column of shape \<open>(num_node, 1)\<close> that holds at row \<open>des_unique[k]\<close> the
  value \<open>k\<close>; a row beyond \<open>num_node\<close> is refused.
\<close>

definition csr_column :: "nat \<Rightarrow> nat list \<Rightarrow> error + nat list" where
  "csr_column num_node des_unique =
     (if \<forall>d \<in> set des_unique. d < num_node
      then Inr (fold (\<lambda>(d, k) col. col[d := k])
                  (zip des_unique [0 ..< length des_unique]) (replicate num_node 0))
      else Inl ValueError)"

text \<open>
  \<open>torch.zeros(n, w) + index_matrix[des].todense()\<close>: the positions, one per message row;
  the dense column is a numpy matrix, and a number of rows that cannot be broadcast is
  numpy's value error.
\<close>

definition add_index :: "nat \<Rightarrow> nat list \<Rightarrow> error + nat list" where
  "add_index n positions =
     (case broadcast2 (+) (replicate n 0) positions of
        Inl e \<Rightarrow> Inl ValueError
      | Inr index \<Rightarrow> Inr index)"

definition REGCN_aggregate ::
  "REGCNLayer \<Rightarrow> mat \<Rightarrow> nat \<Rightarrow> nat list \<Rightarrow> error + (nat list \<times> mat)" where
  "REGCN_aggregate L message num_node des =
     (let des_unique = unique des; counts = unique_counts des
      in bindE (csr_column num_node des_unique) (\<lambda>index_matrix.
         bindE (take_rows index_matrix des) (\<lambda>positions.
         bindE (add_index (length message) positions) (\<lambda>index.
         bindE (scatter_add0 (regcn_output_dim L)
                  (zeros (length des_unique) (regcn_output_dim L)) index message) (\<lambda>message.
           Inr (des_unique, div_rows message counts))))))"

definition REGCN_forward ::
  "REGCNLayer \<Rightarrow> (nat \<Rightarrow> nat \<Rightarrow> real) \<Rightarrow> mat \<Rightarrow> mat \<Rightarrow> edge list \<Rightarrow> error + mat" where
  "REGCN_forward L noise nodes_embed edges_embed edges =
     bindE (Linear_forward (fc_self L) nodes_embed) (\<lambda>h.
     bindE (take_rows nodes_embed (map e_src edges)) (\<lambda>src.
     bindE (take_rows edges_embed (map e_rel edges)) (\<lambda>rela.
     bindE (REGCN_calculate_message L src rela) (\<lambda>message.
     bindE (REGCN_aggregate L message (length nodes_embed) (map e_dst edges)) (\<lambda>(des_index, message).
     bindE (send_message h des_index message) (\<lambda>h.
       case regcn_active L of
         None \<Rightarrow> Inl AttributeError
       | Some a \<Rightarrow> Inr (activate a (regcn_training L) noise h)))))))"

section \<open>WGCNLayer\<close>

record WGCNLayer =
  num_relation :: nat
  wgcn_input_dim :: nat
  wgcn_output_dim :: nat
  relation_weight :: mat
  fc :: Linear
  wgcn_active :: activation

text \<open>The constructor; \<open>rw\<close>, \<open>w\<close> and \<open>b\<close> are the randomly drawn initial parameters.\<close>

definition WGCN_init ::
  "nat \<Rightarrow> nat \<Rightarrow> nat \<Rightarrow> string \<Rightarrow> bool \<Rightarrow> mat \<Rightarrow> mat \<Rightarrow> vec \<Rightarrow> WGCNLayer" where
  "WGCN_init num_rel input_dim output_dim active bias rw w b =
     \<lparr>num_relation = num_rel,
      wgcn_input_dim = input_dim,
      wgcn_output_dim = output_dim,
      relation_weight = rw,
      fc = \<lparr>in_features = input_dim, lin_weight = w, lin_bias = (if bias then Some b else None)\<rparr>,
      wgcn_active =
        (if active = ''sigmoid'' then Sigmoid
         else if active = ''tanh'' then Tanh
         else ReLU)\<rparr>"

definition WGCN_calculate_message :: "WGCNLayer \<Rightarrow> mat \<Rightarrow> mat \<Rightarrow> error + mat" where
  "WGCN_calculate_message L src rw =
     bindE (broadcast2m (*) src rw) (Linear_forward (fc L))"

definition WGCN_aggregate ::
  "WGCNLayer \<Rightarrow> mat \<Rightarrow> nat \<Rightarrow> nat list \<Rightarrow> error + (nat list \<times> mat)" where
  "WGCN_aggregate L message num_node des =
     (let des_unique = unique des
      in bindE (csr_column num_node des_unique) (\<lambda>index_matrix.
         bindE (take_rows index_matrix des) (\<lambda>positions.
         bindE (add_index (length message) positions) (\<lambda>index.
         bindE (scatter_add0 (ncols message)
                  (zeros (length des_unique) (wgcn_output_dim L)) index message) (\<lambda>message.
           Inr (des_unique, message))))))"

text \<open>
  A call of the method \<open>aggregate(self, message, num_node, des)\<close> with a list of
  positional arguments: Python binds exactly three of them and raises a type error for any
  other number, before the body runs.
\<close>

datatype pyval = PyTensor mat | PyInt nat | PyIndex "nat list"

definition call_WGCN_aggregate ::
  "WGCNLayer \<Rightarrow> pyval list \<Rightarrow> error + (nat list \<times> mat)" where
  "call_WGCN_aggregate L args =
     (case args of
        [PyTensor message, PyInt num_node, PyIndex des] \<Rightarrow> WGCN_aggregate L message num_node des
      | _ \<Rightarrow> Inl TypeError)"

text \<open>\<open>forward\<close> calls \<open>aggregate\<close> with four arguments: the message, the number of
  nodes, the number of edges and the destinations.\<close>

definition WGCN_forward :: "WGCNLayer \<Rightarrow> mat \<Rightarrow> edge list \<Rightarrow> error + mat" where
  "WGCN_forward L nodes_embed edges =
     bindE (Linear_forward (fc L) nodes_embed) (\<lambda>h.
     bindE (take_rows nodes_embed (map e_src edges)) (\<lambda>src.
     bindE (take_rows (relation_weight L) (map e_rel edges)) (\<lambda>rw.
     bindE (WGCN_calculate_message L src rw) (\<lambda>message.
     bindE (call_WGCN_aggregate L
              [PyTensor message, PyInt (length nodes_embed), PyInt (length edges),
               PyIndex (map e_dst edges)]) (\<lambda>(des_index, message).
     bindE (send_message h des_index message) (\<lambda>h.
       Inr (activate (wgcn_active L) True (\<lambda>i j. 0) h)))))))"

text \<open>(\<open>wgcn_active\<close> is never \<open>RReLU\<close>, so no slope is drawn in the last line.)\<close>

section \<open>GCNLayer\<close>

text \<open>
  The values a tensor entry of this layer can take: a finite number, an infinity or
  not-a-number, with the products and sums of IEEE arithmetic (without rounding).
\<close>

datatype fl = Fin real | PInf | NInf | NaN

fun fl_mul :: "fl \<Rightarrow> fl \<Rightarrow> fl" where
  "fl_mul (Fin a) (Fin b) = Fin (a * b)"
| "fl_mul NaN _ = NaN"
| "fl_mul _ NaN = NaN"
| "fl_mul (Fin a) PInf = (if a = 0 then NaN else if a > 0 then PInf else NInf)"
| "fl_mul (Fin a) NInf = (if a = 0 then NaN else if a > 0 then NInf else PInf)"
| "fl_mul PInf (Fin b) = (if b = 0 then NaN else if b > 0 then PInf else NInf)"
| "fl_mul NInf (Fin b) = (if b = 0 then NaN else if b > 0 then NInf else PInf)"
| "fl_mul PInf PInf = PInf"
| "fl_mul NInf NInf = PInf"
| "fl_mul PInf NInf = NInf"
| "fl_mul NInf PInf = NInf"

fun fl_add :: "fl \<Rightarrow> fl \<Rightarrow> fl" where
  "fl_add (Fin a) (Fin b) = Fin (a + b)"
| "fl_add NaN _ = NaN"
| "fl_add _ NaN = NaN"
| "fl_add PInf NInf = NaN"
| "fl_add NInf PInf = NaN"
| "fl_add PInf _ = PInf"
| "fl_add _ PInf = PInf"
| "fl_add NInf _ = NInf"
| "fl_add _ NInf = NInf"

fun is_finite :: "fl \<Rightarrow> bool" where
  "is_finite (Fin a) = True"
| "is_finite _ = False"

fun isinf :: "fl \<Rightarrow> bool" where
  "isinf PInf = True"
| "isinf NInf = True"
| "isinf _ = False"

text \<open>\<open>deg.pow(-0.5)\<close> of a count: infinite at zero.\<close>

definition pow_neg_half :: "nat \<Rightarrow> fl" where
  "pow_neg_half d = (if d = 0 then PInf else Fin (1 / sqrt (real d)))"

record GCNLayer =
  lin :: Linear

text \<open>
  The edge tensor of this layer has shape \<open>(2, num_edge)\<close>: row 0 the sources, row 1 the
  destinations; it is a list of columns \<open>(source, destination)\<close> here.
  \<open>add_self_loops\<close> appends the column \<open>(i, i)\<close> for every node \<open>i\<close>.
\<close>

definition add_self_loops :: "(nat \<times> nat) list \<Rightarrow> nat \<Rightarrow> (nat \<times> nat) list" where
  "add_self_loops edges num_nodes = edges @ map (\<lambda>i. (i, i)) [0 ..< num_nodes]"

text \<open>\<open>degree(index, num_nodes)\<close>: how often every node occurs in \<open>index\<close>; an index that
  is no node is refused.\<close>

definition degree :: "nat list \<Rightarrow> nat \<Rightarrow> error + nat list" where
  "degree index num_nodes =
     (if \<forall>i \<in> set index. i < num_nodes
      then Inr (map (count_list index) [0 ..< num_nodes])
      else Inl RuntimeError)"

text \<open>The lines of \<open>forward\<close> up to \<open>deg_inv_sqrt[torch.isinf(deg_inv_sqrt)] = 0\<close>.\<close>

definition GCN_deg_inv_sqrt :: "nat \<Rightarrow> (nat \<times> nat) list \<Rightarrow> error + fl list" where
  "GCN_deg_inv_sqrt num_nodes edges =
     bindE (degree (map fst edges) num_nodes) (\<lambda>deg.
       let deg_inv_sqrt = map pow_neg_half deg
       in Inr (map (\<lambda>v. if isinf v then Fin 0 else v) deg_inv_sqrt))"

text \<open>The normalisation coefficients of the edges.\<close>

definition GCN_norm :: "nat \<Rightarrow> (nat \<times> nat) list \<Rightarrow> error + fl list" where
  "GCN_norm num_nodes edges =
     bindE (GCN_deg_inv_sqrt num_nodes edges) (\<lambda>deg_inv_sqrt.
     bindE (take_rows deg_inv_sqrt (map fst edges)) (\<lambda>a.
     bindE (take_rows deg_inv_sqrt (map snd edges)) (\<lambda>b.
       Inr (map2 fl_mul a b))))"

definition GCN_message :: "vec list \<Rightarrow> fl list \<Rightarrow> fl list list" where
  "GCN_message x_j coef = map2 (\<lambda>c xs. map (\<lambda>v. fl_mul c (Fin v)) xs) coef x_j"

definition fl_sum :: "fl list \<Rightarrow> fl" where
  "fl_sum xs = foldr fl_add xs (Fin 0)"

definition GCN_update :: "GCNLayer \<Rightarrow> fl list list \<Rightarrow> error + fl list list" where
  "GCN_update L aggr_out =
     (if \<forall>x \<in> set aggr_out. length x = in_features (lin L)
      then Inr (map (\<lambda>x.
             let y = map (\<lambda>w. fl_sum (map2 (\<lambda>a b. fl_mul a (Fin b)) x w)) (lin_weight (lin L))
             in case lin_bias (lin L) of None \<Rightarrow> y
                | Some b \<Rightarrow> map2 (\<lambda>u v. fl_add u (Fin v)) y b) aggr_out)
      else Inl RuntimeError)"

text \<open>
  \<open>propagate\<close> of the message-passing base class with \<open>aggr='add'\<close>: the rows of \<open>x\<close> at
  the sources become the messages, the messages are summed at the destinations, and
  \<open>update\<close> is applied to the sums.
\<close>

definition GCN_propagate ::
  "GCNLayer \<Rightarrow> (nat \<times> nat) list \<Rightarrow> mat \<Rightarrow> fl list \<Rightarrow> error + fl list list" where
  "GCN_propagate L edges x coef =
     bindE (take_rows x (map fst edges)) (\<lambda>x_j.
       let msgs = GCN_message x_j coef
       in if \<not> (\<forall>d \<in> set (map snd edges). d < length x) then Inl RuntimeError
          else GCN_update L
                 (fold (\<lambda>(d, m) acc. acc[d := map2 fl_add (acc ! d) m]) (zip (map snd edges) msgs)
                    (replicate (length x) (replicate (ncols x) (Fin 0)))))"

definition GCN_forward :: "GCNLayer \<Rightarrow> mat \<Rightarrow> (nat \<times> nat) list \<Rightarrow> error + fl list list" where
  "GCN_forward L node_embed edges =
     (let edges = add_self_loops edges (length node_embed)
      in bindE (GCN_norm (length node_embed) edges) (\<lambda>coef.
           GCN_propagate L edges node_embed coef))"

section \<open>The mean of the messages of a destination\<close>

text \<open>
  What the aggregation is to compute, in the words of its contract: the messages mapped
  to a destination, and the arithmetic mean of a list of vectors of dimension \<open>D\<close>.
\<close>

definition messages_to :: "mat \<Rightarrow> nat list \<Rightarrow> nat \<Rightarrow> mat" where
  "messages_to message des d = map fst (filter (\<lambda>(m, d'). d' = d) (zip message des))"

definition mean_vec :: "nat \<Rightarrow> mat \<Rightarrow> vec" where
  "mean_vec D ms = map (\<lambda>j. (\<Sum>m\<leftarrow>ms. m ! j) / real (length ms)) [0 ..< D]"

section \<open>What an edge block of CompGCNLayer adds to a node\<close>

text \<open>
  The message of one edge under a transform \<open>W\<close>, and the vector an edge block with
  transform \<open>W\<close> and edge selection \<open>sel\<close> adds to row \<open>d\<close>: one summand for every
  selected edge into \<open>d\<close>, each summand the message of the edge whose write to
  \<open>index_matrix[d]\<close> remained.
\<close>

definition edge_message :: "Linear \<Rightarrow> mat \<Rightarrow> mat \<Rightarrow> edge \<Rightarrow> vec" where
  "edge_message W node_embed rela_embed e =
     Linear_row W (map2 (+) (node_embed ! e_src e) (rela_embed ! e_rel e))"

definition block_contribution ::
  "(nat list \<Rightarrow> nat) \<Rightarrow> Linear \<Rightarrow> mat \<Rightarrow> mat \<Rightarrow> edge list \<Rightarrow> nat \<Rightarrow> vec" where
  "block_contribution winner W node_embed rela_embed sel d =
     (let ks = writes_to (map e_dst sel) d
      in map (\<lambda>j. \<Sum>k\<leftarrow>ks. edge_message W node_embed rela_embed (sel ! winner ks) ! j)
           [0 ..< length (lin_weight W)])"

section \<open>A forward call on any layer\<close>

text \<open>
  The five layers, the arguments of their \<open>forward\<close> methods and their results.  A call
  receives, besides the arguments of the caller, the two things the tensor library decides:
  the slopes drawn by \<open>RReLU\<close> and the winner of repeated index writes.  Arguments of
  another layer's \<open>forward\<close> are a type error.
\<close>

datatype layer =
  REGCN REGCNLayer | WGCN WGCNLayer | GCN GCNLayer | CompGCN CompGCNLayer | RGCN RGCNLayer

datatype forward_args =
  REGCN_args mat mat "edge list"
| WGCN_args mat "edge list"
| GCN_args mat "(nat \<times> nat) list"
| CompGCN_args mat mat "edge list" string
| RGCN_args mat "edge list"

datatype forward_result = Nodes mat | NodesFl "fl list list" | NodesRelations mat mat

fun forward_call ::
  "layer \<Rightarrow> (nat \<Rightarrow> nat \<Rightarrow> real) \<Rightarrow> (nat list \<Rightarrow> nat) \<Rightarrow> forward_args \<Rightarrow> error + forward_result" where
  "forward_call (REGCN L) noise winner (REGCN_args nodes_embed edges_embed edges) =
     bindE (REGCN_forward L noise nodes_embed edges_embed edges) (\<lambda>h. Inr (Nodes h))"
| "forward_call (WGCN L) noise winner (WGCN_args nodes_embed edges) =
     bindE (WGCN_forward L nodes_embed edges) (\<lambda>h. Inr (Nodes h))"
| "forward_call (GCN L) noise winner (GCN_args node_embed edges) =
     bindE (GCN_forward L node_embed edges) (\<lambda>h. Inr (NodesFl h))"
| "forward_call (CompGCN L) noise winner (CompGCN_args node_embed rela_embed edges mode) =
     bindE (CompGCN_forward winner L node_embed rela_embed edges mode)
       (\<lambda>(h_v, h_r). Inr (NodesRelations h_v h_r))"
| "forward_call (RGCN L) noise winner (RGCN_args h edges) =
     bindE (RGCN_forward winner L h edges) (\<lambda>out. Inr (Nodes out))"
| "forward_call _ noise winner _ = Inl TypeError"

text \<open>The layers whose \<open>forward\<close> draws random numbers.\<close>

fun draws_random :: "layer \<Rightarrow> bool" where
  "draws_random (REGCN L) = (regcn_active L = Some RReLU \<and> regcn_training L)"
| "draws_random _ = False"

text \<open>The calls in which an index assignment repeats a position: RGCNLayer with two edges
  into one node, CompGCNLayer with two original or two reversed edges into one node.\<close>

fun repeated_writes :: "layer \<Rightarrow> forward_args \<Rightarrow> bool" where
  "repeated_writes (RGCN L) (RGCN_args h edges) = (\<not> distinct (map e_dst edges))"
| "repeated_writes (CompGCN L) (CompGCN_args node_embed rela_embed edges mode) =
     (\<not> distinct (map e_dst (original_edges L edges))
      \<or> \<not> distinct (map e_dst (reversed_edges L edges)))"
| "repeated_writes _ _ = False"

section \<open>Example layers\<close>

text \<open>Small layers with fixed weights, for evaluating the forward passes.\<close>

definition rgcn_ex :: RGCNLayer where
  "rgcn_ex = \<lparr>rgcn_input_dim = 1, rgcn_output_dim = 1, num_rels = 1,
               weight = [[[1]]], self_loop_weigt = [[0]]\<rparr>"

definition compgcn_ex :: CompGCNLayer where
  "compgcn_ex = \<lparr>comp_output_dim = 1, num_rela = 1,
     W_o = \<lparr>in_features = 1, lin_weight = [[1]], lin_bias = None\<rparr>,
     W_i = \<lparr>in_features = 1, lin_weight = [[0]], lin_bias = None\<rparr>,
     W_s = \<lparr>in_features = 1, lin_weight = [[1]], lin_bias = None\<rparr>,
     W_r = \<lparr>in_features = 1, lin_weight = [[1]], lin_bias = None\<rparr>\<rparr>"

definition compgcn_mix :: CompGCNLayer where
  "compgcn_mix = \<lparr>comp_output_dim = 1, num_rela = 1,
     W_o = \<lparr>in_features = 1, lin_weight = [[7]], lin_bias = None\<rparr>,
     W_i = \<lparr>in_features = 1, lin_weight = [[0]], lin_bias = None\<rparr>,
     W_s = \<lparr>in_features = 1, lin_weight = [[10]], lin_bias = None\<rparr>,
     W_r = \<lparr>in_features = 1, lin_weight = [[1]], lin_bias = None\<rparr>\<rparr>"

definition regcn_ex :: "string \<Rightarrow> REGCNLayer" where
  "regcn_ex a = REGCN_init 1 1 False a [[1]] [] [[1]] []"

definition wgcn_ex :: WGCNLayer where
  "wgcn_ex = WGCN_init 1 1 1 ''relu'' False [[1]] [[1]] []"

definition gcn_ex :: GCNLayer where
  "gcn_ex = \<lparr>lin = \<lparr>in_features = 1, lin_weight = [[2]], lin_bias = Some [1]\<rparr>\<rparr>"

section \<open>Facts about the primitives\<close>

lemma bindE_Inr [simp]: "bindE (Inr v) f = f v"
  by (simp add: bindE_def)

lemma bindE_Inl [simp]: "bindE (Inl e) f = Inl e"
  by (simp add: bindE_def)

lemma sequenceE_map_Inr [simp]: "sequenceE (map Inr xs) = Inr xs"
  by (induction xs) simp_all

lemma sequenceE_all_Inr:
  "\<forall>x \<in> set xs. \<exists>v. x = Inr v \<Longrightarrow> sequenceE xs = Inr (map projr xs)"
  by (induction xs) auto

lemma broadcast2m_same_shape:
  assumes "length A = length B" and "\<forall>i < length A. length (A ! i) = length (B ! i)"
  shows "broadcast2m f A B = Inr (map2 (map2 f) A B)"
proof -
  have rows: "map2 (broadcast2 f) A B = map Inr (map2 (map2 f) A B)"
    using assms
  proof (induction A arbitrary: B)
    case Nil
    then show ?case by simp
  next
    case (Cons a A)
    then obtain b B' where B: "B = b # B'" by (cases B) auto
    from Cons.prems B have len: "length A = length B'" by simp
    from Cons.prems(2) B have hd: "length a = length b" by auto
    from Cons.prems(2) B have tl: "\<forall>i < length A. length (A ! i) = length (B' ! i)" by auto
    show ?case using Cons.IH [OF len tl] hd B by (simp add: broadcast2_def)
  qed
  have "broadcast2 (broadcast2 f) A B = Inr (map Inr (map2 (map2 f) A B))"
    using assms(1) rows by (simp add: broadcast2_def [of "broadcast2 f"])
  then show ?thesis
    by (simp only: broadcast2m_def bindE_Inr sequenceE_map_Inr)
qed

section \<open>Composition\<close>

text \<open>
  C5 (as amended).  For all tensors \<open>a\<close> and \<open>b\<close> of one shape, \<open>composition\<close> with mode
  \<open>'add'\<close> returns the elementwise sum and with mode \<open>'mult'\<close> (the name the code gives
  the multiplicative mode) the elementwise product.
\<close>

theorem composition_add_mult:
  assumes "length a = length b" and "\<forall>i < length a. length (a ! i) = length (b ! i)"
  shows "composition a b ''add'' = Inr (Some (map2 (map2 (+)) a b))
       \<and> composition a b ''mult'' = Inr (Some (map2 (map2 (*)) a b))"
  using assms by (simp add: composition_def broadcast2m_same_shape)

theorem composition_add_mult_witness:
  "composition [[1, 2]] [[3, 4]] ''add'' = Inr (Some [[4, 6]])
   \<and> composition [[1, 2]] [[3, 4]] ''mult'' = Inr (Some [[3, 8]])"
  using composition_add_mult [of "[[1, 2]]" "[[3, 4]]"] by simp

text \<open>
  C5 as stated fails on the mode name: \<open>'multiply'\<close> is not a mode of the code, which
  returns \<open>None\<close> for it.
\<close>

theorem composition_multiply_counterexample:
  "composition [[1, 2]] [[3, 4]] ''multiply'' = Inr None
   \<and> composition [[1, 2]] [[3, 4]] ''multiply'' \<noteq> Inr (Some [[3, 8]])"
  by (simp add: composition_def)

section \<open>Evaluating the layers\<close>

lemmas regcn_eval = REGCN_forward_def REGCN_init_def REGCN_calculate_message_def
  REGCN_aggregate_def Linear_forward_def Linear_row_def dot_def take_rows_def e_src_def
  e_rel_def e_dst_def broadcast2m_def broadcast2_def add_index_def csr_column_def unique_def
  unique_inverse_def unique_counts_def scatter_add0_def zeros_def ncols_def add_prefix_def
  div_rows_def send_message_def put_rows_def

section \<open>Aggregation over shared destinations\<close>

text \<open>
  C1.  The claim: the contribution a forward pass adds to a destination row is the sum
  (CompGCNLayer) or the mean (RGCNLayer) of the messages of the edges into that
  destination, whatever the order of the edges.  The code differs when two edges share a
  destination.  With messages \<open>1\<close> and \<open>3\<close> into node 2 and a zero self-loop term, the
  mean is \<open>2\<close> and the sum \<open>4\<close>; RGCNLayer returns \<open>3\<close>, and \<open>1\<close> when the two edges are
  swapped, CompGCNLayer \<open>6\<close>, and \<open>2\<close> when they are swapped: \<open>msg[index_matrix[dst]]\<close>
  replaces every message by the message of the edge whose write to \<open>index_matrix\<close>
  remained, the last one on the CPU (\<open>last\<close>).  If the first write remained (\<open>hd\<close>) the
  results would be \<open>1\<close> and \<open>3\<close>, \<open>2\<close> and \<open>6\<close>: never the mean or the sum.
\<close>

theorem shared_destination_aggregation:
  "RGCN_forward last rgcn_ex [[1], [3], [0]] [(0, 0, 2), (1, 0, 2)] = Inr [[0], [0], [3]]
   \<and> RGCN_forward last rgcn_ex [[1], [3], [0]] [(1, 0, 2), (0, 0, 2)] = Inr [[0], [0], [1]]
   \<and> CompGCN_forward last compgcn_ex [[1], [3], [0]] [[0], [0], [0]] [(0, 0, 2), (1, 0, 2)] ''add''
       = Inr ([[0], [0], [6]], [[0], [0], [0]])
   \<and> CompGCN_forward last compgcn_ex [[1], [3], [0]] [[0], [0], [0]] [(1, 0, 2), (0, 0, 2)] ''add''
       = Inr ([[0], [0], [2]], [[0], [0], [0]])
   \<and> RGCN_forward hd rgcn_ex [[1], [3], [0]] [(0, 0, 2), (1, 0, 2)] = Inr [[0], [0], [1]]
   \<and> RGCN_forward hd rgcn_ex [[1], [3], [0]] [(1, 0, 2), (0, 0, 2)] = Inr [[0], [0], [3]]
   \<and> CompGCN_forward hd compgcn_ex [[1], [3], [0]] [[0], [0], [0]] [(0, 0, 2), (1, 0, 2)] ''add''
       = Inr ([[0], [0], [2]], [[0], [0], [0]])
   \<and> CompGCN_forward hd compgcn_ex [[1], [3], [0]] [[0], [0], [0]] [(1, 0, 2), (0, 0, 2)] ''add''
       = Inr ([[0], [0], [6]], [[0], [0], [0]])"
  by code_simp

section \<open>WGCNLayer.forward\<close>

text \<open>
  C2.  The claim: \<open>WGCNLayer.forward\<close> completes without raising and returns the
  activated sum of the self-loop term and the aggregated messages.  In the code every call
  of \<open>forward\<close> raises: at the latest the call of \<open>aggregate\<close>, which passes four
  arguments to a method of three parameters.
\<close>

theorem WGCN_forward_always_raises:
  "\<exists>e. WGCN_forward L nodes_embed edges = Inl e"
  by (auto simp: WGCN_forward_def call_WGCN_aggregate_def bindE_def split: sum.splits)

section \<open>Unknown modes and activation names\<close>

text \<open>
  C6 (as amended).  No configuration error exists in the code: \<open>composition\<close> with a mode
  other than \<open>'add'\<close>, \<open>'sub'\<close> and \<open>'mult'\<close> returns \<open>None\<close> without raising, and a
  WGCNLayer built with an activation name other than \<open>'sigmoid'\<close> and \<open>'tanh'\<close> uses ReLU.
\<close>

theorem unknown_config_silent:
  "(mode \<notin> {''add'', ''sub'', ''mult''} \<longrightarrow> composition a b mode = Inr None)
   \<and> (active \<notin> {''sigmoid'', ''tanh''} \<longrightarrow>
        wgcn_active (WGCN_init num_rel input_dim output_dim active bias rw w bv) = ReLU)"
  by (simp add: composition_def WGCN_init_def)

theorem unknown_config_silent_witness:
  "''concat'' \<notin> {''add'', ''sub'', ''mult''} \<and> composition [[1]] [[2]] ''concat'' = Inr None
   \<and> ''gelu'' \<notin> {''sigmoid'', ''tanh''}
   \<and> wgcn_active (WGCN_init 1 1 1 ''gelu'' False [[1]] [[1]] []) = ReLU"
  using unknown_config_silent [of "''concat''" "[[1]]" "[[2]]" "''gelu''" 1 1 1 False "[[1]]" "[[1]]" "[]"]
  by simp

text \<open>C6 as stated fails: an unknown mode gives \<open>None\<close>, not an error, and an unknown
  activation name gives a WGCNLayer with the default activation.\<close>

theorem unknown_config_counterexample:
  "composition [[1, 2]] [[3, 4]] ''concat'' = Inr None
   \<and> wgcn_active (WGCN_init 1 1 1 ''gelu'' False [[1]] [[1]] []) = ReLU"
  by (simp add: composition_def WGCN_init_def)

section \<open>REGCNLayer with an unknown activation name\<close>

text \<open>
  C10.  A REGCNLayer built with an activation name other than \<open>'rrelu'\<close>, \<open>'sigmoid'\<close>
  and \<open>'tanh'\<close> is built without an error and has no attribute \<open>active\<close>; every call of
  \<open>forward\<close> on it raises.
\<close>

theorem REGCN_unknown_activation:
  assumes "active \<notin> {''rrelu'', ''sigmoid'', ''tanh''}"
  shows "regcn_active (REGCN_init input_dim output_dim bias active w_self b_self w_agg b_agg) = None
       \<and> (\<forall>noise nodes_embed edges_embed edges. \<exists>e.
            REGCN_forward (REGCN_init input_dim output_dim bias active w_self b_self w_agg b_agg)
              noise nodes_embed edges_embed edges = Inl e)"
proof -
  let ?L = "REGCN_init input_dim output_dim bias active w_self b_self w_agg b_agg"
  have none: "regcn_active ?L = None"
    using assms by (simp add: REGCN_init_def)
  have "\<exists>e. REGCN_forward ?L noise nodes_embed edges_embed edges = Inl e"
    for noise nodes_embed edges_embed edges
    unfolding REGCN_forward_def none
    by (auto simp: bindE_def split: sum.splits)
  with none show ?thesis by blast
qed

theorem REGCN_unknown_activation_witness:
  "''relu'' \<notin> {''rrelu'', ''sigmoid'', ''tanh''}
   \<and> regcn_active (REGCN_init 1 1 False ''relu'' [[1]] [] [[1]] []) = None
   \<and> REGCN_forward (REGCN_init 1 1 False ''relu'' [[1]] [] [[1]] [])
        (\<lambda>i j. 1 / 8) [[1], [2]] [[0]] [(0, 0, 1)] = Inl AttributeError"
proof -
  have h: "''relu'' \<notin> {''rrelu'', ''sigmoid'', ''tanh''}" by simp
  have f: "REGCN_forward (REGCN_init 1 1 False ''relu'' [[1]] [] [[1]] [])
        (\<lambda>i j. 1 / 8) [[1], [2]] [[0]] [(0, 0, 1)] = Inl AttributeError"
    by (simp add: regcn_eval)
  show ?thesis
    using REGCN_unknown_activation [OF h, of 1 1 False "[[1]]" "[]" "[[1]]" "[]"] f by simp
qed

section \<open>The random slopes of REGCNLayer\<close>

text \<open>
  A REGCNLayer with an activation other than \<open>RReLU\<close>, or in evaluation mode, returns the
  same result whatever slopes the generator would draw.
\<close>

lemma REGCN_forward_noise_independent:
  assumes "regcn_active L \<noteq> Some RReLU \<or> \<not> regcn_training L"
  shows "REGCN_forward L noise1 nodes_embed edges_embed edges
       = REGCN_forward L noise2 nodes_embed edges_embed edges"
proof -
  have "activate a (regcn_training L) noise1 h = activate a (regcn_training L) noise2 h"
    if "regcn_active L = Some a" for a h
    using assms that by (cases a) (auto simp: activate_def activation_entry_def)
  then show ?thesis
    unfolding REGCN_forward_def
    by (auto simp: bindE_def split: sum.splits option.splits prod.splits)
qed

section \<open>REGCNLayer.aggregate\<close>

lemma unique_props:
  "set (unique des) = set des" "distinct (unique des)" "sorted (unique des)"
  by (simp_all add: unique_def)

lemma pos_in_nth: "distinct xs \<Longrightarrow> k < length xs \<Longrightarrow> pos_in xs (xs ! k) = k"
proof (induction xs arbitrary: k)
  case Nil
  then show ?case by simp
next
  case (Cons x xs)
  then show ?case by (cases k) auto
qed

lemma pos_in_less: "d \<in> set xs \<Longrightarrow> pos_in xs d < length xs"
  by (induction xs) auto

lemma nth_pos_in: "d \<in> set xs \<Longrightarrow> xs ! pos_in xs d = d"
  by (induction xs) auto

lemma fold_update_length:
  "length (fold (\<lambda>(d, k) col. col[d := k]) ps col) = length col"
  by (induction ps arbitrary: col) auto

lemma fold_update_other:
  "d \<notin> fst ` set ps \<Longrightarrow> fold (\<lambda>(d, k) col. col[d := k]) ps col ! d = col ! d"
  by (induction ps arbitrary: col) (auto simp: rev_image_eqI)

lemma fold_update_nth:
  assumes "distinct ds" "length ks = length ds" "\<forall>d \<in> set ds. d < length col" "i < length ds"
  shows "fold (\<lambda>(d, k) col. col[d := k]) (zip ds ks) col ! (ds ! i) = ks ! i"
  using assms
proof (induction ds arbitrary: ks col i)
  case Nil
  then show ?case by simp
next
  case (Cons d ds)
  then obtain k ks' where ks: "ks = k # ks'" by (cases ks) auto
  show ?case
  proof (cases i)
    case 0
    have "d \<notin> fst ` set (zip ds ks')"
      using Cons.prems(1) by (auto dest: set_zip_leftD)
    then show ?thesis
      using 0 ks Cons.prems(3) by (simp add: fold_update_other)
  next
    case (Suc j)
    then show ?thesis
      using Cons.IH [of ks' "col[d := k]" j] Cons.prems ks by simp
  qed
qed

lemma csr_column_positions:
  assumes "\<forall>d \<in> set des. d < num_node"
  shows "\<exists>col. csr_column num_node (unique des) = Inr col \<and> length col = num_node
           \<and> (\<forall>d \<in> set des. col ! d = pos_in (unique des) d)"
proof -
  let ?u = "unique des"
  let ?col = "fold (\<lambda>(d, k) col. col[d := k]) (zip ?u [0 ..< length ?u]) (replicate num_node 0)"
  have ok: "\<forall>d \<in> set ?u. d < num_node"
    using assms by (simp add: unique_props)
  have "?col ! d = pos_in ?u d" if "d \<in> set des" for d
  proof -
    from that have mem: "d \<in> set ?u" by (simp add: unique_props)
    then have lt: "pos_in ?u d < length ?u" by (rule pos_in_less)
    have "?col ! (?u ! pos_in ?u d) = [0 ..< length ?u] ! pos_in ?u d"
      using ok lt by (intro fold_update_nth) (simp_all add: unique_props)
    then show ?thesis
      using lt mem by (simp add: nth_pos_in)
  qed
  then show ?thesis
    using ok by (simp add: csr_column_def fold_update_length)
qed

lemma scatter_fold_length:
  "length (fold (\<lambda>(p, m) acc. acc[p := add_prefix w (acc ! p) m]) ps target) = length target"
  by (induction ps arbitrary: target) auto

lemma scatter_fold_nth:
  assumes "k < length target"
  shows "fold (\<lambda>(p, m) acc. acc[p := add_prefix w (acc ! p) m]) ps target ! k
       = foldl (add_prefix w) (target ! k) (map snd (filter (\<lambda>(p, m). p = k) ps))"
  using assms
proof (induction ps arbitrary: target)
  case Nil
  then show ?case by simp
next
  case (Cons pm ps)
  obtain p m where pm: "pm = (p, m)" by (cases pm)
  show ?case
    using Cons.IH [of "target[p := add_prefix w (target ! p) m]"] Cons.prems pm
    by (cases "p = k") simp_all
qed

lemma add_prefix_full:
  "length a = w \<Longrightarrow> length m = w \<Longrightarrow> add_prefix w a m = map2 (+) a m"
  by (simp add: add_prefix_def)

lemma foldl_add_prefix:
  assumes "length a = w" "\<forall>m \<in> set ms. length m = w"
  shows "foldl (add_prefix w) a ms = map (\<lambda>j. a ! j + (\<Sum>m\<leftarrow>ms. m ! j)) [0 ..< w]"
  using assms
proof (induction ms arbitrary: a)
  case Nil
  then show ?case using map_nth [of a] by auto
next
  case (Cons m ms)
  have step: "add_prefix w a m = map2 (+) a m"
    using Cons.prems by (simp add: add_prefix_full)
  have len: "length (map2 (+) a m) = w"
    using Cons.prems by simp
  have "foldl (add_prefix w) (map2 (+) a m) ms
      = map (\<lambda>j. map2 (+) a m ! j + (\<Sum>m\<leftarrow>ms. m ! j)) [0 ..< w]"
    using Cons.IH [OF len] Cons.prems(2) by simp
  also have "\<dots> = map (\<lambda>j. a ! j + (\<Sum>m\<leftarrow>m # ms. m ! j)) [0 ..< w]"
    using Cons.prems by (intro map_cong) (auto simp: algebra_simps)
  finally show ?case using step by simp
qed

lemma filter_zip_positions:
  assumes "distinct u" "set des \<subseteq> set u" "k < length u"
  shows "map snd (filter (\<lambda>(p, m). p = k) (zip (map (pos_in u) des) message))
       = map fst (filter (\<lambda>(m, d'). d' = u ! k) (zip message des))"
  using assms(2)
proof (induction des arbitrary: message)
  case Nil
  then show ?case by simp
next
  case (Cons d des)
  show ?case
  proof (cases message)
    case Nil
    then show ?thesis by simp
  next
    case (Cons m ms)
    have iff: "pos_in u d = k \<longleftrightarrow> d = u ! k"
      using assms(1,3) Cons.prems \<open>set (d # des) \<subseteq> set u\<close>
      by (auto simp: pos_in_nth nth_pos_in)
    show ?thesis
      using Cons.IH [of ms] \<open>set (d # des) \<subseteq> set u\<close> Cons iff by simp
  qed
qed

lemma count_list_messages_to:
  "length message = length des \<Longrightarrow> count_list des d = length (messages_to message des d)"
proof (induction des arbitrary: message)
  case Nil
  then show ?case by (simp add: messages_to_def)
next
  case (Cons d' des)
  then obtain m ms where "message = m # ms" by (cases message) auto
  then show ?case using Cons by (auto simp: messages_to_def)
qed


lemma map2_add_zeros: "length ps = n \<Longrightarrow> map2 (+) (replicate n (0::nat)) ps = ps"
  by (rule nth_equalityI) simp_all

lemma scatter_rows_sum:
  assumes ne: "message \<noteq> []" and len: "length des = length message"
    and dim: "\<forall>m \<in> set message. length m = D"
  shows "\<exists>acc. scatter_add0 D (zeros (length (unique des)) D) (map (pos_in (unique des)) des) message
                 = Inr acc
           \<and> length acc = length (unique des)
           \<and> (\<forall>k < length (unique des).
                 acc ! k = map (\<lambda>j. \<Sum>m\<leftarrow>messages_to message des (unique des ! k). m ! j) [0 ..< D])"
proof (cases "D = 0")
  case True
  then show ?thesis
    using ne len by (simp add: scatter_add0_def zeros_def)
next
  case False
  let ?u = "unique des"
  let ?idx = "map (pos_in ?u) des"
  let ?f = "\<lambda>(p, m) acc. acc[p := add_prefix D (acc ! p) m]"
  let ?acc = "fold ?f (zip ?idx message) (zeros (length ?u) D)"
  from ne len have des_ne: "des \<noteq> []" by auto
  then have u_ne: "?u \<noteq> []"
    using unique_props(1) [of des] by auto
  have cols_src: "ncols message = D"
    using ne dim by (cases message) (auto simp: ncols_def)
  have cols_tgt: "ncols (zeros (length ?u) D) = D"
    using u_ne by (cases "length ?u") (auto simp: ncols_def zeros_def)
  have bound: "\<forall>p \<in> set ?idx. p < length (zeros (length ?u) D)"
    by (auto simp: zeros_def unique_props intro: pos_in_less)
  have run: "scatter_add0 D (zeros (length ?u) D) ?idx message = Inr ?acc"
    using False des_ne len cols_src cols_tgt bound by (simp add: scatter_add0_def)
  have row: "?acc ! k = map (\<lambda>j. \<Sum>m\<leftarrow>messages_to message des (?u ! k). m ! j) [0 ..< D]"
    if k: "k < length ?u" for k
  proof -
    have sel: "map snd (filter (\<lambda>(p, m). p = k) (zip ?idx message))
             = messages_to message des (?u ! k)"
      unfolding messages_to_def
      using k by (intro filter_zip_positions) (simp_all add: unique_props)
    have sub: "\<forall>m \<in> set (messages_to message des (?u ! k)). length m = D"
      using dim by (auto simp: messages_to_def dest: set_zip_leftD)
    have "?acc ! k = foldl (add_prefix D) (zeros (length ?u) D ! k)
                       (map snd (filter (\<lambda>(p, m). p = k) (zip ?idx message)))"
      using k by (intro scatter_fold_nth) (simp add: zeros_def)
    also have "\<dots> = foldl (add_prefix D) (replicate D 0) (messages_to message des (?u ! k))"
      using k sel by (simp add: zeros_def)
    also have "\<dots> = map (\<lambda>j. replicate D 0 ! j + (\<Sum>m\<leftarrow>messages_to message des (?u ! k). m ! j)) [0 ..< D]"
      using sub by (intro foldl_add_prefix) simp_all
    also have "\<dots> = map (\<lambda>j. \<Sum>m\<leftarrow>messages_to message des (?u ! k). m ! j) [0 ..< D]"
      by (intro map_cong) simp_all
    finally show ?thesis .
  qed
  have "length ?acc = length ?u"
    by (simp add: scatter_fold_length zeros_def)
  with run row show ?thesis by blast
qed

text \<open>
  C3 (as amended).  For every non-empty sequence of \<open>N\<close> messages whose dimension is the
  layer's \<open>output_dim\<close> and every sequence of \<open>N\<close> destination identifiers below
  \<open>num_node\<close>, \<open>REGCNLayer.aggregate\<close> returns the sorted sequence of the distinct
  destinations together with the matrix whose row for each of them is the arithmetic mean
  of the messages mapped to that destination.
\<close>

theorem REGCN_aggregate_mean:
  assumes ne: "message \<noteq> []" and len: "length des = length message"
    and dim: "\<forall>m \<in> set message. length m = regcn_output_dim L"
    and rng: "\<forall>d \<in> set des. d < num_node"
  shows "REGCN_aggregate L message num_node des
           = Inr (unique des,
                  map (\<lambda>d. mean_vec (regcn_output_dim L) (messages_to message des d)) (unique des))
       \<and> sorted (unique des) \<and> distinct (unique des) \<and> set (unique des) = set des"
proof -
  let ?u = "unique des"
  let ?D = "regcn_output_dim L"
  let ?idx = "map (pos_in ?u) des"
  obtain col where col: "csr_column num_node ?u = Inr col" "length col = num_node"
      "\<forall>d \<in> set des. col ! d = pos_in ?u d"
    using csr_column_positions [OF rng] by blast
  have gather: "take_rows col des = Inr ?idx"
    using col(2,3) rng by (simp add: take_rows_def)
  have bc: "add_index (length message) ?idx = Inr ?idx"
    using len by (simp add: add_index_def broadcast2_def map2_add_zeros)
  obtain acc where acc: "scatter_add0 ?D (zeros (length ?u) ?D) ?idx message = Inr acc"
      "length acc = length ?u"
      "\<forall>k < length ?u. acc ! k = map (\<lambda>j. \<Sum>m\<leftarrow>messages_to message des (?u ! k). m ! j) [0 ..< ?D]"
    using scatter_rows_sum [OF ne len dim] by blast
  have run: "REGCN_aggregate L message num_node des = Inr (?u, div_rows acc (unique_counts des))"
    by (simp add: REGCN_aggregate_def col(1) gather bc acc(1))
  have "div_rows acc (unique_counts des) = map (\<lambda>d. mean_vec ?D (messages_to message des d)) ?u"
  proof (rule nth_equalityI)
    show "length (div_rows acc (unique_counts des))
        = length (map (\<lambda>d. mean_vec ?D (messages_to message des d)) ?u)"
      using acc(2) by (simp add: div_rows_def unique_counts_def)
  next
    fix k assume "k < length (div_rows acc (unique_counts des))"
    then have k: "k < length ?u"
      using acc(2) by (simp add: div_rows_def unique_counts_def)
    have cnt: "count_list des (?u ! k) = length (messages_to message des (?u ! k))"
      using len by (intro count_list_messages_to) simp
    show "div_rows acc (unique_counts des) ! k
        = map (\<lambda>d. mean_vec ?D (messages_to message des d)) ?u ! k"
      using k acc(2,3) cnt by (simp add: div_rows_def unique_counts_def mean_vec_def)
  qed
  with run show ?thesis by (simp add: unique_props)
qed

theorem REGCN_aggregate_mean_witness:
  "REGCN_aggregate (regcn_ex ''rrelu'') [[1], [3], [5]] 4 [2, 0, 2] = Inr ([0, 2], [[3], [3]])"
  using REGCN_aggregate_mean [of "[[1], [3], [5]]" "[2, 0, 2]" "regcn_ex ''rrelu''" 4]
  by (simp add: regcn_ex_def REGCN_init_def unique_def mean_vec_def messages_to_def)

text \<open>
  C3 as stated fails for a message dimension other than \<open>output_dim\<close>: the index tensor
  of the scatter has \<open>output_dim\<close> columns, so a layer with \<open>output_dim = 1\<close> returns a
  matrix with one column for a message of dimension two, not the mean \<open>[1, 2]\<close>.
\<close>

theorem REGCN_aggregate_dimension_counterexample:
  "REGCN_aggregate (regcn_ex ''rrelu'') [[1, 2]] 1 [0] = Inr ([0], [[1]])
   \<and> mean_vec 2 (messages_to [[1, 2]] [0] 0) = [1, 2]"
  by (simp add: regcn_ex_def REGCN_init_def REGCN_aggregate_def csr_column_def unique_def
      unique_counts_def take_rows_def add_index_def broadcast2_def scatter_add0_def zeros_def
      ncols_def add_prefix_def div_rows_def mean_vec_def messages_to_def upt_rec)

section \<open>The normalisation of GCNLayer\<close>

lemma is_finite_mul: "is_finite a \<Longrightarrow> is_finite b \<Longrightarrow> is_finite (fl_mul a b)"
  by (cases a; cases b) simp_all

lemma is_finite_add: "is_finite a \<Longrightarrow> is_finite b \<Longrightarrow> is_finite (fl_add a b)"
  by (cases a; cases b) simp_all

lemma is_finite_fl_sum: "\<forall>v \<in> set xs. is_finite v \<Longrightarrow> is_finite (fl_sum xs)"
  by (induction xs) (simp_all add: fl_sum_def is_finite_add)

lemma map2_pred:
  assumes "\<forall>x \<in> set a. P x" and "\<forall>y \<in> set b. Q y"
    and "\<And>x y. P x \<Longrightarrow> Q y \<Longrightarrow> R (f x y)"
  shows "\<forall>v \<in> set (map2 f a b). R v"
  using assms by (auto elim!: in_set_zipE)

lemma count_list_upt: "count_list [0 ..< n] i = (if i < n then 1 else 0)"
  by (induction n) auto

lemma count_list_self_loops:
  "count_list (map fst (add_self_loops edges n)) i
     = count_list (map fst edges) i + (if i < n then 1 else 0)"
proof -
  have "map fst (map (\<lambda>i. (i, i)) [0 ..< n]) = [0 ..< n]"
    by (simp add: map_idI comp_def)
  then show ?thesis
    by (simp add: add_self_loops_def count_list_upt)
qed

lemma deg_inv_sqrt_replaced:
  assumes "\<forall>s \<in> set (map fst es). s < n"
  shows "GCN_deg_inv_sqrt n es
       = Inr (map (\<lambda>i. if count_list (map fst es) i = 0 then Fin 0
                        else Fin (1 / sqrt (real (count_list (map fst es) i)))) [0 ..< n])"
  using assms by (simp add: GCN_deg_inv_sqrt_def degree_def pow_neg_half_def)

lemma self_loops_in_range:
  assumes "\<forall>e \<in> set edges. fst e < n \<and> snd e < n"
  shows "\<forall>e \<in> set (add_self_loops edges n). fst e < n \<and> snd e < n"
  using assms by (auto simp: add_self_loops_def)

lemma GCN_norm_finite:
  assumes "\<forall>e \<in> set es. fst e < n \<and> snd e < n"
  shows "\<exists>c. GCN_norm n es = Inr c \<and> length c = length es \<and> (\<forall>v \<in> set c. is_finite v)"
proof -
  let ?dis = "map (\<lambda>i. if count_list (map fst es) i = 0 then Fin 0
                        else Fin (1 / sqrt (real (count_list (map fst es) i)))) [0 ..< n]"
  have src: "\<forall>s \<in> set (map fst es). s < n" and dst: "\<forall>d \<in> set (map snd es). d < n"
    using assms by auto
  have dis: "GCN_deg_inv_sqrt n es = Inr ?dis"
    using src by (rule deg_inv_sqrt_replaced)
  have fin: "\<forall>v \<in> set ?dis. is_finite v" by auto
  let ?a = "map ((!) ?dis) (map fst es)" and ?b = "map ((!) ?dis) (map snd es)"
  have a: "take_rows ?dis (map fst es) = Inr ?a" and b: "take_rows ?dis (map snd es) = Inr ?b"
    using src dst by (simp_all add: take_rows_def)
  have fa: "\<forall>v \<in> set ?a. is_finite v" and fb: "\<forall>v \<in> set ?b. is_finite v"
    using src dst by auto
  have run: "GCN_norm n es = Inr (map2 fl_mul ?a ?b)"
    by (simp only: GCN_norm_def dis a b bindE_Inr)
  have "\<forall>v \<in> set (map2 fl_mul ?a ?b). is_finite v"
    using fa fb by (rule map2_pred) (rule is_finite_mul)
  moreover have "length (map2 fl_mul ?a ?b) = length es" by simp
  ultimately show ?thesis using run by blast
qed

lemma agg_fold_finite:
  assumes "\<forall>row \<in> set acc. \<forall>v \<in> set row. is_finite v"
    and "\<forall>p \<in> set ps. \<forall>v \<in> set (snd p). is_finite v"
  shows "\<forall>row \<in> set (fold (\<lambda>(d, m) acc. acc[d := map2 fl_add (acc ! d) m]) ps acc).
           \<forall>v \<in> set row. is_finite v"
  using assms
proof (induction ps arbitrary: acc)
  case Nil
  then show ?case by simp
next
  case (Cons p ps)
  obtain d m where p: "p = (d, m)" by (cases p)
  have m: "\<forall>v \<in> set m. is_finite v" using Cons.prems(2) p by auto
  have new: "\<forall>row \<in> set (acc[d := map2 fl_add (acc ! d) m]). \<forall>v \<in> set row. is_finite v"
  proof (cases "d < length acc")
    case True
    then have "\<forall>v \<in> set (acc ! d). is_finite v" using Cons.prems(1) by auto
    then have "\<forall>v \<in> set (map2 fl_add (acc ! d) m). is_finite v"
      using m by (rule map2_pred) (rule is_finite_add)
    then show ?thesis
      using Cons.prems(1) set_update_subset_insert [of acc d "map2 fl_add (acc ! d) m"] by blast
  next
    case False
    then show ?thesis using Cons.prems(1) by (simp add: list_update_beyond)
  qed
  show ?case
    using Cons.IH [OF new] Cons.prems(2) p by simp
qed

lemma agg_fold_length:
  assumes "\<forall>row \<in> set acc. length row = w" and "\<forall>p \<in> set ps. length (snd p) = w"
  shows "\<forall>row \<in> set (fold (\<lambda>(d, m) acc. acc[d := map2 fl_add (acc ! d) m]) ps acc).
           length row = w"
  using assms
proof (induction ps arbitrary: acc)
  case Nil
  then show ?case by simp
next
  case (Cons p ps)
  obtain d m where p: "p = (d, m)" by (cases p)
  have m: "length m = w" using Cons.prems(2) p by auto
  have new: "\<forall>row \<in> set (acc[d := map2 fl_add (acc ! d) m]). length row = w"
  proof (cases "d < length acc")
    case True
    then have "length (map2 fl_add (acc ! d) m) = w" using Cons.prems(1) m by simp
    then show ?thesis
      using Cons.prems(1) set_update_subset_insert [of acc d "map2 fl_add (acc ! d) m"] by blast
  next
    case False
    then show ?thesis using Cons.prems(1) by (simp add: list_update_beyond)
  qed
  show ?case
    using Cons.IH [OF new] Cons.prems(2) p by simp
qed

lemma GCN_update_finite:
  assumes "\<forall>row \<in> set aggr. length row = in_features (lin L)"
    and "\<forall>row \<in> set aggr. \<forall>v \<in> set row. is_finite v"
  shows "\<exists>out. GCN_update L aggr = Inr out \<and> length out = length aggr
           \<and> (\<forall>row \<in> set out. \<forall>v \<in> set row. is_finite v)"
proof -
  let ?y = "\<lambda>x. map (\<lambda>w. fl_sum (map2 (\<lambda>a b. fl_mul a (Fin b)) x w)) (lin_weight (lin L))"
  have y: "\<forall>v \<in> set (?y x). is_finite v" if "\<forall>v \<in> set x. is_finite v" for x
  proof -
    have "is_finite (fl_sum (map2 (\<lambda>a b. fl_mul a (Fin b)) x w))" for w
      using that by (intro is_finite_fl_sum) (auto elim!: in_set_zipE intro!: is_finite_mul)
    then show ?thesis by auto
  qed
  let ?row = "\<lambda>x. case lin_bias (lin L) of None \<Rightarrow> ?y x
                   | Some b \<Rightarrow> map2 (\<lambda>u v. fl_add u (Fin v)) (?y x) b"
  have r: "\<forall>v \<in> set (?row x). is_finite v" if "\<forall>v \<in> set x. is_finite v" for x
    using y [OF that]
    by (cases "lin_bias (lin L)") (auto elim!: in_set_zipE intro!: is_finite_add)
  have "GCN_update L aggr = Inr (map ?row aggr)"
    using assms(1) by (simp add: GCN_update_def Let_def)
  moreover have "\<forall>row \<in> set (map ?row aggr). \<forall>v \<in> set row. is_finite v"
    using r assms(2) by auto
  ultimately show ?thesis by auto
qed


lemma agg_fold_rows:
  "length (fold (\<lambda>(d, m) acc. acc[d := map2 fl_add (acc ! d) m]) ps acc) = length acc"
  by (induction ps arbitrary: acc) auto

lemma GCN_propagate_finite:
  assumes es: "\<forall>e \<in> set es. fst e < length x \<and> snd e < length x"
    and shape: "\<forall>row \<in> set x. length row = in_features (lin L)"
    and coef: "\<forall>c \<in> set coef. is_finite c"
  shows "\<exists>out. GCN_propagate L es x coef = Inr out \<and> length out = length x
           \<and> (\<forall>row \<in> set out. \<forall>v \<in> set row. is_finite v)"
proof -
  let ?x_j = "map ((!) x) (map fst es)"
  let ?msgs = "GCN_message ?x_j coef"
  let ?acc0 = "replicate (length x) (replicate (ncols x) (Fin 0))"
  let ?aggr = "fold (\<lambda>(d, m) acc. acc[d := map2 fl_add (acc ! d) m]) (zip (map snd es) ?msgs) ?acc0"
  have gather: "take_rows x (map fst es) = Inr ?x_j"
    using es by (simp add: take_rows_def)
  have dst: "\<forall>d \<in> set (map snd es). d < length x"
    using es by auto
  have run: "GCN_propagate L es x coef = GCN_update L ?aggr"
    using dst by (simp add: GCN_propagate_def gather Let_def)
  have xj_len: "\<forall>row \<in> set ?x_j. length row = in_features (lin L)"
    using es shape by auto
  have msgs_len: "\<forall>m \<in> set ?msgs. length m = in_features (lin L)"
    unfolding GCN_message_def using xj_len by (auto elim!: in_set_zipE)
  have msgs_fin: "\<forall>m \<in> set ?msgs. \<forall>v \<in> set m. is_finite v"
    unfolding GCN_message_def using coef by (auto elim!: in_set_zipE intro!: is_finite_mul)
  have cols: "ncols x = in_features (lin L)" if "x \<noteq> []"
    using that shape by (cases x) (auto simp: ncols_def)
  have acc_len: "\<forall>row \<in> set ?acc0. length row = in_features (lin L)"
    using cols by (cases "x = []") auto
  have acc_fin: "\<forall>row \<in> set ?acc0. \<forall>v \<in> set row. is_finite v"
    by auto
  have aggr_len: "\<forall>row \<in> set ?aggr. length row = in_features (lin L)"
    using acc_len msgs_len by (intro agg_fold_length) (auto dest: set_zip_rightD)
  have aggr_fin: "\<forall>row \<in> set ?aggr. \<forall>v \<in> set row. is_finite v"
    using acc_fin msgs_fin by (intro agg_fold_finite) (auto dest: set_zip_rightD)
  obtain out where "GCN_update L ?aggr = Inr out" "length out = length ?aggr"
      "\<forall>row \<in> set out. \<forall>v \<in> set row. is_finite v"
    using GCN_update_finite [OF aggr_len aggr_fin] by blast
  then show ?thesis
    using run by (simp add: agg_fold_rows)
qed

text \<open>
  C8.  \<open>deg_inv_sqrt\<close> is \<open>degree^(-0.5)\<close> with every infinite value (a degree of
  zero) replaced by 0; after the self-loops are added, for in-range edges every
  node has a degree of at least one, so every entry of \<open>deg_inv_sqrt\<close> and every
  normalisation coefficient is finite, and with finite node embeddings of the layer's input
  width \<open>forward\<close> returns a matrix with one row per node and neither an infinity nor a
  NaN in it; a node of degree 0 in the graph without self-loops has \<open>deg_inv_sqrt = 1\<close>.
\<close>

theorem GCN_normalisation_finite:
  assumes edges_ok: "\<forall>e \<in> set edges. fst e < length node_embed \<and> snd e < length node_embed"
    and shape: "\<forall>row \<in> set node_embed. length row = in_features (lin L)"
  shows "((\<forall>s \<in> set (map fst es). s < length node_embed) \<longrightarrow>
            GCN_deg_inv_sqrt (length node_embed) es
            = Inr (map (\<lambda>i. if count_list (map fst es) i = 0 then Fin 0
                             else Fin (1 / sqrt (real (count_list (map fst es) i))))
                     [0 ..< length node_embed]))
       \<and> (\<exists>dis coef out.
           GCN_deg_inv_sqrt (length node_embed) (add_self_loops edges (length node_embed)) = Inr dis
         \<and> length dis = length node_embed
         \<and> (\<forall>i < length node_embed.
               dis ! i = Fin (1 / sqrt (real (count_list (map fst edges) i + 1))))
         \<and> GCN_norm (length node_embed) (add_self_loops edges (length node_embed)) = Inr coef
         \<and> length coef = length edges + length node_embed
         \<and> (\<forall>c \<in> set coef. is_finite c)
         \<and> GCN_forward L node_embed edges = Inr out
         \<and> length out = length node_embed
         \<and> (\<forall>row \<in> set out. \<forall>v \<in> set row. is_finite v))"
proof -
  let ?n = "length node_embed"
  let ?es = "add_self_loops edges ?n"
  have es: "\<forall>e \<in> set ?es. fst e < ?n \<and> snd e < ?n"
    using edges_ok by (rule self_loops_in_range)
  then have src: "\<forall>s \<in> set (map fst ?es). s < ?n" by auto
  let ?dis = "map (\<lambda>i. if count_list (map fst ?es) i = 0 then Fin 0
                        else Fin (1 / sqrt (real (count_list (map fst ?es) i)))) [0 ..< ?n]"
  have dis: "GCN_deg_inv_sqrt ?n ?es = Inr ?dis"
    using src by (rule deg_inv_sqrt_replaced)
  have dis_nth: "\<forall>i < ?n. ?dis ! i = Fin (1 / sqrt (real (count_list (map fst edges) i + 1)))"
    by (simp add: count_list_self_loops)
  obtain coef where coef: "GCN_norm ?n ?es = Inr coef" "length coef = length ?es"
      "\<forall>c \<in> set coef. is_finite c"
    using GCN_norm_finite [OF es] by blast
  obtain out where out: "GCN_propagate L ?es node_embed coef = Inr out" "length out = ?n"
      "\<forall>row \<in> set out. \<forall>v \<in> set row. is_finite v"
    using GCN_propagate_finite [OF es shape coef(3)] by blast
  have fwd: "GCN_forward L node_embed edges = Inr out"
    by (simp add: GCN_forward_def Let_def coef(1) out(1))
  have "length coef = length edges + ?n"
    using coef(2) by (simp add: add_self_loops_def)
  with dis dis_nth coef(1,3) fwd out(2,3)
  have "\<exists>dis coef out.
           GCN_deg_inv_sqrt ?n ?es = Inr dis
         \<and> length dis = ?n
         \<and> (\<forall>i < ?n. dis ! i = Fin (1 / sqrt (real (count_list (map fst edges) i + 1))))
         \<and> GCN_norm ?n ?es = Inr coef
         \<and> length coef = length edges + ?n
         \<and> (\<forall>c \<in> set coef. is_finite c)
         \<and> GCN_forward L node_embed edges = Inr out
         \<and> length out = ?n
         \<and> (\<forall>row \<in> set out. \<forall>v \<in> set row. is_finite v)"
    by (intro exI [of _ ?dis] exI [of _ coef] exI [of _ out]) simp
  then show ?thesis
    using deg_inv_sqrt_replaced [of es ?n] by blast
qed

theorem GCN_normalisation_finite_witness:
  "\<exists>dis coef out.
      GCN_deg_inv_sqrt 3 (add_self_loops [(0, 1)] 3) = Inr dis
    \<and> dis ! 2 = Fin 1
    \<and> GCN_norm 3 (add_self_loops [(0, 1)] 3) = Inr coef
    \<and> is_finite (coef ! 3)
    \<and> GCN_forward gcn_ex [[1], [2], [4]] [(0, 1)] = Inr out
    \<and> length out = 3"
proof -
  have e: "\<forall>e \<in> set [(0::nat, 1::nat)]. fst e < length [[1::real], [2], [4]] \<and> snd e < length [[1::real], [2], [4]]"
    by simp
  have s: "\<forall>row \<in> set [[1::real], [2], [4]]. length row = in_features (lin gcn_ex)"
    by (simp add: gcn_ex_def)
  from conjunct2 [OF GCN_normalisation_finite [OF e s]] obtain dis coef out where
    d: "GCN_deg_inv_sqrt (length [[1::real], [2], [4]])
          (add_self_loops [(0, 1)] (length [[1::real], [2], [4]])) = Inr dis"
    and dn: "\<forall>i < length [[1::real], [2], [4]].
          dis ! i = Fin (1 / sqrt (real (count_list (map fst [(0::nat, 1::nat)]) i + 1)))"
    and c: "GCN_norm (length [[1::real], [2], [4]])
          (add_self_loops [(0, 1)] (length [[1::real], [2], [4]])) = Inr coef"
    and cl: "length coef = length [(0::nat, 1::nat)] + length [[1::real], [2], [4]]"
    and cf: "\<forall>c \<in> set coef. is_finite c"
    and f: "GCN_forward gcn_ex [[1], [2], [4]] [(0, 1)] = Inr out"
    and ol: "length out = length [[1::real], [2], [4]]"
    by blast
  have "dis ! 2 = Fin 1"
    using dn by simp
  moreover have "is_finite (coef ! 3)"
    using cf cl by (intro bspec [OF cf] nth_mem) simp
  moreover have l3: "length [[1::real], [2], [4]] = 3" by simp
  ultimately show ?thesis
    using d [unfolded l3] c [unfolded l3] f ol [unfolded l3] by blast
qed

section \<open>Nodes without an incoming edge\<close>

lemma bindE_InrE:
  assumes "bindE m f = Inr y"
  obtains v where "m = Inr v" "f v = Inr y"
  using assms by (cases m) (simp_all add: bindE_def)

lemma sequenceE_nth:
  "sequenceE xs = Inr ys \<Longrightarrow> length ys = length xs \<and> (\<forall>i < length xs. xs ! i = Inr (ys ! i))"
proof (induction xs arbitrary: ys)
  case Nil
  then show ?case by simp
next
  case (Cons x xs)
  then show ?case
    by (auto split: sum.splits simp: nth_Cons split: nat.splits)
qed

lemma put_rows_other:
  assumes "put_rows h idx vals = Inr h'" "i \<notin> set idx"
  shows "length h' = length h \<and> h' ! i = h ! i"
proof -
  have "length (fold (\<lambda>(i, v) acc. acc[i := v]) ps h) = length h
      \<and> (i \<notin> fst ` set ps \<longrightarrow> fold (\<lambda>(i, v) acc. acc[i := v]) ps h ! i = h ! i)" for ps
    by (induction ps arbitrary: h) (auto simp: rev_image_eqI)
  from this [of "zip idx vals"] assms show ?thesis
    by (auto simp: put_rows_def split: if_splits dest: set_zip_leftD)
qed

lemma send_message_other:
  assumes "send_message h des_index message = Inr h'" "i \<notin> set des_index"
  shows "length h' = length h \<and> h' ! i = h ! i"
  using assms
  by (auto simp: send_message_def elim!: bindE_InrE split: if_splits dest: put_rows_other)

lemma REGCN_aggregate_index:
  "REGCN_aggregate L message num_node des = Inr (des_index, m) \<Longrightarrow> des_index = unique des"
  by (auto simp: REGCN_aggregate_def Let_def elim!: bindE_InrE)

lemma RGCN_aggregate_index:
  "RGCN_aggregate message des = Inr (des_index, m) \<Longrightarrow> des_index = unique des"
  by (auto simp: RGCN_aggregate_def Let_def elim!: bindE_InrE)

lemma CompGCN_aggregate_index:
  "CompGCN_aggregate message des = Inr (des_index, m) \<Longrightarrow> des_index = unique des"
  by (auto simp: CompGCN_aggregate_def Let_def elim!: bindE_InrE)

lemma RGCN_isolated_node:
  assumes run: "RGCN_forward winner L h edges = Inr out"
    and i: "i < length h" and iso: "i \<notin> set (map e_dst edges)"
  shows "length out = length h
       \<and> vec_mat (rgcn_output_dim L) (h ! i) (self_loop_weigt L) = Inr (out ! i)"
proof -
  from run obtain msg dst_index agg out0 where
    agg: "RGCN_aggregate msg (map e_dst edges) = Inr (dst_index, agg)"
    and self: "mm (rgcn_output_dim L) h (self_loop_weigt L) = Inr out0"
    and send: "send_message out0 dst_index agg = Inr out"
    by (auto simp: RGCN_forward_def Let_def elim!: bindE_InrE split: prod.splits)
  from agg have "dst_index = unique (map e_dst edges)" by (rule RGCN_aggregate_index)
  with iso have "i \<notin> set dst_index" by (simp add: unique_props)
  with send have same: "length out = length out0" "out ! i = out0 ! i"
    using send_message_other by blast+
  from self have "length out0 = length h"
    "vec_mat (rgcn_output_dim L) (h ! i) (self_loop_weigt L) = Inr (out0 ! i)"
    using i sequenceE_nth [of "map (\<lambda>x. vec_mat (rgcn_output_dim L) x (self_loop_weigt L)) h" out0]
    by (auto simp: mm_def)
  with same show ?thesis by simp
qed

lemma activate_nth:
  "i < length h \<Longrightarrow> activate a t noise h ! i
     = map (\<lambda>(j, x). activation_entry a t (noise i j) x) (enumerate 0 (h ! i))"
  by (simp add: activate_def nth_enumerate_eq)

lemma Linear_forward_nth:
  "Linear_forward W X = Inr Y \<Longrightarrow> i < length X \<Longrightarrow> length Y = length X \<and> Y ! i = Linear_row W (X ! i)"
  by (auto simp: Linear_forward_def split: if_splits)

lemma REGCN_isolated_node:
  assumes run: "REGCN_forward L noise nodes_embed edges_embed edges = Inr out"
    and i: "i < length nodes_embed" and iso: "i \<notin> set (map e_dst edges)"
  shows "\<exists>a. regcn_active L = Some a \<and> length out = length nodes_embed
       \<and> out ! i = map (\<lambda>(j, x). activation_entry a (regcn_training L) (noise i j) x)
                     (enumerate 0 (Linear_row (fc_self L) (nodes_embed ! i)))"
proof -
  from run obtain h0 message des_index agg h1 a where
    self: "Linear_forward (fc_self L) nodes_embed = Inr h0"
    and agg: "REGCN_aggregate L message (length nodes_embed) (map e_dst edges) = Inr (des_index, agg)"
    and send: "send_message h0 des_index agg = Inr h1"
    and act: "regcn_active L = Some a"
    and out: "out = activate a (regcn_training L) noise h1"
    by (auto simp: REGCN_forward_def elim!: bindE_InrE split: prod.splits option.splits)
  from agg have "des_index = unique (map e_dst edges)" by (rule REGCN_aggregate_index)
  with iso have "i \<notin> set des_index" by (simp add: unique_props)
  with send have same: "length h1 = length h0" "h1 ! i = h0 ! i"
    using send_message_other by blast+
  from self i have h0: "length h0 = length nodes_embed" "h0 ! i = Linear_row (fc_self L) (nodes_embed ! i)"
    using Linear_forward_nth by blast+
  have "length out = length nodes_embed"
    using out same h0 by (simp add: activate_def)
  moreover have "out ! i = map (\<lambda>(j, x). activation_entry a (regcn_training L) (noise i j) x)
                     (enumerate 0 (Linear_row (fc_self L) (nodes_embed ! i)))"
    using out same h0 i by (simp add: activate_nth)
  ultimately show ?thesis using act by blast
qed

lemma edge_block_other:
  assumes "CompGCN_edge_block winner W node_embed rela_embed index_matrix h_v sel = Inr (im', h_v')"
    and "i \<notin> set (map e_dst sel)"
  shows "length h_v' = length h_v \<and> h_v' ! i = h_v ! i"
proof -
  from assms(1) obtain message des_index agg where
    agg: "CompGCN_aggregate message (map e_dst sel) = Inr (des_index, agg)"
    and send: "send_message h_v des_index agg = Inr h_v'"
    by (auto simp: CompGCN_edge_block_def Let_def elim!: bindE_InrE split: prod.splits)
  from agg have "des_index = unique (map e_dst sel)" by (rule CompGCN_aggregate_index)
  with assms(2) have "i \<notin> set des_index" by (simp add: unique_props)
  with send show ?thesis using send_message_other by blast
qed

lemma CompGCN_isolated_node:
  assumes run: "CompGCN_forward winner L node_embed rela_embed edges mode = Inr (h_v, h_r)"
    and i: "i < length node_embed" and iso: "i \<notin> set (map e_dst edges)"
  shows "\<exists>loop c h0. take_row rela_embed (num_rela L * 2) = Inr loop
       \<and> composition node_embed [loop] mode = Inr (Some c)
       \<and> Linear_forward (W_i L) c = Inr h0
       \<and> length h_v = length h0 \<and> h_v ! i = h0 ! i"
proof -
  from run obtain loop c h0 im1 h1 im2 where
    loop: "take_row rela_embed (num_rela L * 2) = Inr loop"
    and comp: "composition node_embed [loop] mode = Inr c"
    and self: "Linear_opt (W_i L) c = Inr h0"
    and b1: "CompGCN_edge_block winner (W_o L) node_embed rela_embed (replicate (length node_embed) 0) h0
               (original_edges L edges) = Inr (im1, h1)"
    and b2: "CompGCN_edge_block winner (W_s L) node_embed rela_embed im1 h1
               (reversed_edges L edges) = Inr (im2, h_v)"
    by (auto simp: CompGCN_forward_def elim!: bindE_InrE split: prod.splits)
  from self obtain c' where c': "c = Some c'" "Linear_forward (W_i L) c' = Inr h0"
    by (cases c) (auto simp: Linear_opt_def)
  have "i \<notin> set (map e_dst (original_edges L edges))" "i \<notin> set (map e_dst (reversed_edges L edges))"
    using iso by (auto simp: original_edges_def reversed_edges_def)
  with b1 b2 have "length h_v = length h0 \<and> h_v ! i = h0 ! i"
    using edge_block_other [OF b1] edge_block_other [OF b2] by simp
  with loop comp c' show ?thesis by blast
qed

text \<open>
  C7.  The claim: in REGCN, WGCN, CompGCN and RGCN a node without an incoming edge
  receives exactly its self-loop transform.  This holds for REGCNLayer, CompGCNLayer and
  RGCNLayer (lemmas \<open>REGCN_isolated_node\<close>, \<open>CompGCN_isolated_node\<close>,
  \<open>RGCN_isolated_node\<close>).  WGCNLayer returns no embedding at all: for three nodes, of
  which nodes 0 and 2 have no incoming edge, the self-loop term is computed and \<open>forward\<close>
  then raises a type error.
\<close>

theorem WGCN_isolated_node_raises:
  "WGCN_forward wgcn_ex [[1], [2], [5]] [(0, 0, 1)] = Inl TypeError
   \<and> map (Linear_row (fc wgcn_ex)) [[1], [2], [5]] = [[1], [2], [5]]"
  by (simp add: WGCN_forward_def wgcn_ex_def WGCN_init_def call_WGCN_aggregate_def
      WGCN_calculate_message_def Linear_forward_def Linear_row_def dot_def take_rows_def
      e_src_def e_rel_def e_dst_def broadcast2m_def broadcast2_def)

section \<open>The partition of the edges in CompGCNLayer.forward\<close>

lemma in_writes_to: "k \<in> set (writes_to idx i) \<longleftrightarrow> k < length idx \<and> idx ! k = i"
  by (auto simp: writes_to_def)

lemma writes_to_nonempty: "i \<in> set idx \<Longrightarrow> writes_to idx i \<noteq> []"
proof -
  assume "i \<in> set idx"
  then obtain k where "k < length idx" "idx ! k = i" by (auto simp: in_set_conv_nth)
  then have "k \<in> set (writes_to idx i)" by (simp add: in_writes_to)
  then show ?thesis by auto
qed

lemma winner_writes_to:
  assumes "valid_winner w" "i \<in> set idx"
  shows "w (writes_to idx i) < length idx \<and> idx ! w (writes_to idx i) = i"
proof -
  have "w (writes_to idx i) \<in> set (writes_to idx i)"
    using assms by (simp add: valid_winner_def writes_to_nonempty)
  then show ?thesis by (simp add: in_writes_to)
qed

lemma index_put_result:
  assumes "\<forall>i \<in> set idx. i < length xs" "length vals = length idx"
  shows "\<exists>ys. index_put w xs idx vals = Inr ys \<and> length ys = length xs
           \<and> (\<forall>i \<in> set idx. ys ! i = vals ! w (writes_to idx i))"
proof -
  let ?ys = "map (\<lambda>i. case writes_to idx i of [] \<Rightarrow> xs ! i | k # ks \<Rightarrow> vals ! w (k # ks))
               [0 ..< length xs]"
  have "index_put w xs idx vals = Inr ?ys"
    using assms by (simp add: index_put_def)
  moreover have "?ys ! i = vals ! w (writes_to idx i)" if "i \<in> set idx" for i
    using that assms(1) writes_to_nonempty [OF that]
    by (cases "writes_to idx i") simp_all
  ultimately show ?thesis by auto
qed

lemma zip_as_map:
  "length xs = length ys \<Longrightarrow> zip xs ys = map (\<lambda>k. (xs ! k, ys ! k)) [0 ..< length ys]"
  by (rule nth_equalityI) simp_all

lemma messages_to_writes:
  assumes "length ms = length des"
  shows "messages_to ms des d = map ((!) ms) (writes_to des d)"
proof -
  have "filter (\<lambda>(m, d'). d' = d) (zip ms des)
      = map (\<lambda>k. (ms ! k, des ! k)) (filter (\<lambda>k. des ! k = d) [0 ..< length des])"
    using assms by (simp add: zip_as_map filter_map comp_def)
  then show ?thesis
    by (simp add: messages_to_def writes_to_def comp_def)
qed

lemma put_rows_distinct:
  assumes "distinct u" "\<forall>d \<in> set u. d < length h" "length s = length u"
  shows "\<exists>h'. put_rows h u s = Inr h' \<and> length h' = length h
           \<and> (\<forall>k < length u. h' ! (u ! k) = s ! k)
           \<and> (\<forall>d. d \<notin> set u \<longrightarrow> h' ! d = h ! d)"
proof -
  let ?h' = "fold (\<lambda>(i, v) acc. acc[i := v]) (zip u s) h"
  have run: "put_rows h u s = Inr ?h'"
    using assms by (simp add: put_rows_def)
  have len: "length ?h' = length h" by (rule fold_update_length)
  have hit: "?h' ! (u ! k) = s ! k" if "k < length u" for k
    using assms that by (intro fold_update_nth) simp_all
  have miss: "?h' ! d = h ! d" if "d \<notin> set u" for d
    using that by (intro fold_update_other) (auto dest: set_zip_leftD)
  from run len hit miss show ?thesis by blast
qed

lemma CompGCN_aggregate_sum:
  assumes len: "length des = length message"
    and dim: "\<forall>m \<in> set message. length m = D"
  shows "\<exists>acc. CompGCN_aggregate message des = Inr (unique des, acc)
           \<and> length acc = length (unique des)
           \<and> (\<forall>k < length (unique des).
                 acc ! k = map (\<lambda>j. \<Sum>m\<leftarrow>messages_to message des (unique des ! k). m ! j) [0 ..< D])"
proof (cases "message = []")
  case True
  with len have "des = []" by simp
  with True show ?thesis
    by (simp add: CompGCN_aggregate_def unique_def unique_inverse_def expand_rows_def
        scatter_add0_def zeros_def)
next
  case False
  then have cols: "ncols message = D"
    using dim by (cases message) (auto simp: ncols_def)
  obtain acc where acc:
      "scatter_add0 D (zeros (length (unique des)) D) (map (pos_in (unique des)) des) message = Inr acc"
      "length acc = length (unique des)"
      "\<forall>k < length (unique des).
          acc ! k = map (\<lambda>j. \<Sum>m\<leftarrow>messages_to message des (unique des ! k). m ! j) [0 ..< D]"
    using scatter_rows_sum [OF False len dim] by blast
  have "CompGCN_aggregate message des = Inr (unique des, acc)"
    using len acc(1) by (simp add: CompGCN_aggregate_def unique_inverse_def expand_rows_def cols)
  with acc(2,3) show ?thesis by blast
qed

lemma map2_map_map: "map2 f (map g xs) (map h xs) = map (\<lambda>x. f (g x) (h x)) xs"
  by (induction xs) simp_all

lemma map2_add_zero_right: "length a = n \<Longrightarrow> map2 (+) a (replicate n (0::real)) = a"
  by (rule nth_equalityI) simp_all

lemma Linear_row_length: "lin_bias W = None \<Longrightarrow> length (Linear_row W v) = length (lin_weight W)"
  by (simp add: Linear_row_def)

lemma block_contribution_length:
  "length (block_contribution w W x r sel d) = length (lin_weight W)"
  by (simp add: block_contribution_def Let_def)

lemma block_contribution_none:
  "d \<notin> set (map e_dst sel) \<Longrightarrow>
     block_contribution w W x r sel d = replicate (length (lin_weight W)) 0"
proof -
  assume "d \<notin> set (map e_dst sel)"
  then have "writes_to (map e_dst sel) d = []"
    by (auto simp: writes_to_def filter_empty_conv)
  then show ?thesis
    by (simp add: block_contribution_def map_replicate_const)
qed

lemma edge_block_result:
  assumes valid: "valid_winner w"
    and rng: "\<forall>e \<in> set sel. e_src e < length x \<and> e_rel e < length r \<and> e_dst e < length x"
    and xd: "\<forall>row \<in> set x. length row = in_features W"
    and rd: "\<forall>row \<in> set r. length row = in_features W"
    and nb: "lin_bias W = None"
    and im: "length im = length x"
    and hl: "length h = length x"
    and hw: "\<forall>row \<in> set h. length row = length (lin_weight W)"
  shows "\<exists>im'. CompGCN_edge_block w W x r im h sel
                 = Inr (im', map (\<lambda>d. map2 (+) (h ! d) (block_contribution w W x r sel d))
                               [0 ..< length x])
              \<and> length im' = length x"
proof -
  let ?des = "map e_dst sel"
  let ?out = "length (lin_weight W)"
  let ?win = "\<lambda>d. w (writes_to ?des d)"
  let ?msg0 = "map (edge_message W x r) sel"
  let ?msg1 = "map (\<lambda>d. edge_message W x r (sel ! ?win d)) ?des"
  let ?u = "unique ?des"
  let ?bc = "block_contribution w W x r sel"
  have des_rng: "\<forall>d \<in> set ?des. d < length im"
    using rng im by auto
  obtain im' where put: "index_put w im ?des [0 ..< length ?des] = Inr im'"
      and im'_len: "length im' = length im"
      and im'_nth: "\<forall>d \<in> set ?des. im' ! d = [0 ..< length ?des] ! ?win d"
    using index_put_result [OF des_rng, of "[0 ..< length ?des]" w] by auto
  have win: "?win d < length sel \<and> ?des ! ?win d = d" if "d \<in> set ?des" for d
    using winner_writes_to [OF valid that] by simp
  have im'_win: "im' ! d = ?win d" if "d \<in> set ?des" for d
  proof -
    have "im' ! d = [0 ..< length ?des] ! ?win d" using im'_nth that by blast
    also have "\<dots> = ?win d" using win [OF that] by simp
    finally show ?thesis .
  qed
  have gx: "take_rows x (map e_src sel) = Inr (map ((!) x) (map e_src sel))"
    using rng by (simp add: take_rows_def)
  have gr: "take_rows r (map e_rel sel) = Inr (map ((!) r) (map e_rel sel))"
    using rng by (simp add: take_rows_def)
  let ?c = "map2 (map2 (+)) (map ((!) x) (map e_src sel)) (map ((!) r) (map e_rel sel))"
  have comp: "composition (map ((!) x) (map e_src sel)) (map ((!) r) (map e_rel sel)) ''add''
            = Inr (Some ?c)"
    using rng xd rd by (simp add: composition_def broadcast2m_same_shape)
  have c_eq: "?c = map (\<lambda>e. map2 (+) (x ! e_src e) (r ! e_rel e)) sel"
    by (simp add: map2_map_map comp_def)
  have lin: "Linear_opt W (Some ?c) = Inr ?msg0"
    unfolding c_eq using rng xd rd
    by (auto simp: Linear_opt_def Linear_forward_def edge_message_def comp_def)
  have order: "take_rows im' ?des = Inr (map ?win ?des)"
    using des_rng im'_len im'_win by (simp add: take_rows_def)
  have gather: "take_rows ?msg0 (map ?win ?des) = Inr ?msg1"
    using win by (simp add: take_rows_def comp_def)
  have m1_dim: "\<forall>m \<in> set ?msg1. length m = ?out"
    using nb by (auto simp: edge_message_def Linear_row_length)
  obtain acc where agg: "CompGCN_aggregate ?msg1 ?des = Inr (?u, acc)"
      and acc_len: "length acc = length ?u"
      and acc_nth: "\<forall>k < length ?u.
          acc ! k = map (\<lambda>j. \<Sum>m\<leftarrow>messages_to ?msg1 ?des (?u ! k). m ! j) [0 ..< ?out]"
    using CompGCN_aggregate_sum [of ?des ?msg1 ?out] m1_dim by auto
  have acc_bc: "acc ! k = ?bc (?u ! k)" if k: "k < length ?u" for k
  proof -
    let ?d = "?u ! k"
    have "messages_to ?msg1 ?des ?d = map ((!) ?msg1) (writes_to ?des ?d)"
      by (intro messages_to_writes) simp
    also have "\<dots> = map (\<lambda>k. edge_message W x r (sel ! ?win ?d)) (writes_to ?des ?d)"
      by (intro map_cong) (auto simp: in_writes_to)
    finally have "messages_to ?msg1 ?des ?d
        = map (\<lambda>k. edge_message W x r (sel ! ?win ?d)) (writes_to ?des ?d)" .
    then show ?thesis
      using acc_nth k by (simp add: block_contribution_def Let_def comp_def)
  qed
  have u_rng: "\<forall>d \<in> set ?u. d < length h"
    using rng hl by (auto simp: unique_props)
  have rows: "take_rows h ?u = Inr (map ((!) h) ?u)"
    using u_rng by (simp add: take_rows_def)
  let ?s = "map2 (map2 (+)) (map ((!) h) ?u) acc"
  have acc_dim: "length (acc ! k) = ?out" if "k < length ?u" for k
    using acc_bc [OF that] by (simp add: block_contribution_length)
  have add: "broadcast2m (+) (map ((!) h) ?u) acc = Inr ?s"
    using acc_len acc_dim u_rng hw by (intro broadcast2m_same_shape) simp_all
  have shape: "map length ?s = map length (map ((!) h) ?u)"
    using acc_len acc_dim u_rng hw by (intro nth_equalityI) simp_all
  obtain h' where put_h: "put_rows h ?u ?s = Inr h'"
      and h'_len: "length h' = length h"
      and h'_hit: "\<forall>k < length ?u. h' ! (?u ! k) = ?s ! k"
      and h'_miss: "\<forall>d. d \<notin> set ?u \<longrightarrow> h' ! d = h ! d"
    using put_rows_distinct [of ?u h ?s] u_rng acc_len by (auto simp: unique_props)
  have send: "send_message h ?u acc = Inr h'"
    unfolding send_message_def by (simp only: rows add shape put_h bindE_Inr refl if_True)
  have h'_eq: "h' = map (\<lambda>d. map2 (+) (h ! d) (?bc d)) [0 ..< length x]"
  proof (rule nth_equalityI)
    show "length h' = length (map (\<lambda>d. map2 (+) (h ! d) (?bc d)) [0 ..< length x])"
      using h'_len hl by simp
  next
    fix d assume "d < length h'"
    then have d: "d < length x" using h'_len hl by simp
    show "h' ! d = map (\<lambda>d. map2 (+) (h ! d) (?bc d)) [0 ..< length x] ! d"
    proof (cases "d \<in> set ?u")
      case True
      then obtain k where k: "k < length ?u" "?u ! k = d" by (auto simp: in_set_conv_nth)
      then have "h' ! d = ?s ! k" using h'_hit by auto
      also have "\<dots> = map2 (+) (h ! d) (acc ! k)" using k acc_len by simp
      also have "\<dots> = map2 (+) (h ! d) (?bc d)" using acc_bc [OF k(1)] k(2) by simp
      finally show ?thesis using d by simp
    next
      case False
      then have "d \<notin> set ?des" by (simp add: unique_props)
      then have "?bc d = replicate ?out 0" by (rule block_contribution_none)
      moreover have "length (h ! d) = ?out" using hw hl d by simp
      ultimately have "map2 (+) (h ! d) (?bc d) = h ! d"
        by (simp add: map2_add_zero_right)
      then show ?thesis using h'_miss False d by simp
    qed
  qed
  have "CompGCN_edge_block w W x r im h sel = Inr (im', h')"
    unfolding CompGCN_edge_block_def Let_def
    by (simp only: put gx gr comp lin order gather agg send bindE_Inr prod.case)
  then show ?thesis using h'_eq im'_len im by auto
qed

lemma valid_winner_last: "valid_winner last"
  by (simp add: valid_winner_def)

lemma valid_winner_hd: "valid_winner hd"
  by (simp add: valid_winner_def)

lemma composition_length:
  assumes "composition A [b] mode = Inr (Some c)"
  shows "length c = length A"
proof -
  have bc: "length c = length A" if "broadcast2m f A [b] = Inr c" for f
  proof -
    from that obtain ys where ys: "broadcast2 (broadcast2 f) A [b] = Inr ys" "sequenceE ys = Inr c"
      unfolding broadcast2m_def by (rule bindE_InrE)
    from ys(1) have "length ys = length A"
      by (auto simp: broadcast2_def split: if_splits)
    with ys(2) show ?thesis
      using sequenceE_nth [of ys c] by simp
  qed
  from assms show ?thesis
    by (auto simp: composition_def split: if_splits elim!: bindE_InrE dest: bc)
qed

text \<open>
  C4.  Every edge with \<open>relation_id \<ge> num_rela\<close> is in the subset given to \<open>W_s\<close> and not
  in the subset given to \<open>W_o\<close>, every edge with \<open>relation_id < num_rela\<close> is in the
  subset given to \<open>W_o\<close> and not in the one given to \<open>W_s\<close>, and the two subsets together
  are the edge list, every edge once.  For in-range edges, embeddings of the layer's input
  width and any winner of the repeated index writes, \<open>forward\<close> returns for every node
  the self-loop term plus what the \<open>W_o\<close> block adds for the edges with
  \<open>relation_id < num_rela\<close> plus what the \<open>W_s\<close> block adds for the edges with
  \<open>relation_id \<ge> num_rela\<close>: \<open>W_o\<close> is applied to the messages of the first subset only
  and \<open>W_s\<close> to those of the second only, also in a list that mixes the two.
\<close>

theorem CompGCN_partition:
  assumes valid: "valid_winner winner"
    and rng: "\<forall>e \<in> set edges. e_src e < length node_embed \<and> e_rel e < length rela_embed
                \<and> e_dst e < length node_embed"
    and xd: "\<forall>row \<in> set node_embed. length row = D"
    and rd: "\<forall>row \<in> set rela_embed. length row = D"
    and w_in: "in_features (W_o L) = D" "in_features (W_s L) = D" "in_features (W_r L) = D"
    and w_bias: "lin_bias (W_o L) = None" "lin_bias (W_s L) = None" "lin_bias (W_i L) = None"
    and w_out: "length (lin_weight (W_o L)) = length (lin_weight (W_i L))"
               "length (lin_weight (W_s L)) = length (lin_weight (W_i L))"
    and loop: "take_row rela_embed (num_rela L * 2) = Inr loop"
    and comp: "composition node_embed [loop] mode = Inr (Some c)"
    and self: "Linear_forward (W_i L) c = Inr h0"
  shows "(\<forall>e \<in> set edges. e_rel e \<ge> num_rela L \<longrightarrow>
            e \<in> set (reversed_edges L edges) \<and> e \<notin> set (original_edges L edges))
       \<and> (\<forall>e \<in> set edges. e_rel e < num_rela L \<longrightarrow>
            e \<in> set (original_edges L edges) \<and> e \<notin> set (reversed_edges L edges))
       \<and> mset (original_edges L edges) + mset (reversed_edges L edges) = mset edges
       \<and> CompGCN_forward winner L node_embed rela_embed edges mode
           = Inr (map (\<lambda>d. map2 (+)
                        (map2 (+) (h0 ! d)
                           (block_contribution winner (W_o L) node_embed rela_embed
                              (filter (\<lambda>e. e_rel e < num_rela L) edges) d))
                        (block_contribution winner (W_s L) node_embed rela_embed
                           (filter (\<lambda>e. e_rel e \<ge> num_rela L) edges) d))
                    [0 ..< length node_embed],
                  map (Linear_row (W_r L)) rela_embed)"
proof (intro conjI)
  show "\<forall>e \<in> set edges. e_rel e \<ge> num_rela L \<longrightarrow>
       e \<in> set (reversed_edges L edges) \<and> e \<notin> set (original_edges L edges)"
    by (auto simp: reversed_edges_def original_edges_def)
  show "\<forall>e \<in> set edges. e_rel e < num_rela L \<longrightarrow>
       e \<in> set (original_edges L edges) \<and> e \<notin> set (reversed_edges L edges)"
    by (auto simp: reversed_edges_def original_edges_def)
  show "mset (original_edges L edges) + mset (reversed_edges L edges) = mset edges"
    unfolding original_edges_def reversed_edges_def
    by (induction edges) auto
next
  let ?n = "length node_embed"
  let ?orig = "filter (\<lambda>e. e_rel e < num_rela L) edges"
  let ?rev = "filter (\<lambda>e. e_rel e \<ge> num_rela L) edges"
  let ?out = "length (lin_weight (W_i L))"
  let ?bo = "block_contribution winner (W_o L) node_embed rela_embed ?orig"
  let ?bs = "block_contribution winner (W_s L) node_embed rela_embed ?rev"
  let ?h1 = "map (\<lambda>d. map2 (+) (h0 ! d) (?bo d)) [0 ..< ?n]"
  let ?h2 = "map (\<lambda>d. map2 (+) (?h1 ! d) (?bs d)) [0 ..< ?n]"
  have h0: "h0 = map (Linear_row (W_i L)) c"
    using self by (auto simp: Linear_forward_def split: if_splits)
  have h0_len: "length h0 = ?n"
    using h0 composition_length [OF comp] by simp
  have h0_dim: "\<forall>row \<in> set h0. length row = length (lin_weight (W_o L))"
    using h0 w_bias(3) w_out(1) by (auto simp: Linear_row_length)
  have lin: "Linear_opt (W_i L) (Some c) = Inr h0"
    using self by (simp add: Linear_opt_def)
  have rng_o: "\<forall>e \<in> set ?orig. e_src e < ?n \<and> e_rel e < length rela_embed \<and> e_dst e < ?n"
    and rng_s: "\<forall>e \<in> set ?rev. e_src e < ?n \<and> e_rel e < length rela_embed \<and> e_dst e < ?n"
    using rng by auto
  obtain im1 where b1: "CompGCN_edge_block winner (W_o L) node_embed rela_embed
        (replicate ?n 0) h0 ?orig = Inr (im1, ?h1)" and im1: "length im1 = ?n"
    using edge_block_result [OF valid rng_o, of "W_o L" "replicate ?n 0" h0]
      xd rd w_in(1) w_bias(1) h0_len h0_dim by auto
  have h1_len: "length ?h1 = ?n" by simp
  have h1_dim: "\<forall>row \<in> set ?h1. length row = length (lin_weight (W_s L))"
    using h0_dim h0_len w_out by (auto simp: block_contribution_length)
  obtain im2 where b2: "CompGCN_edge_block winner (W_s L) node_embed rela_embed
        im1 ?h1 ?rev = Inr (im2, ?h2)"
    using edge_block_result [OF valid rng_s, of "W_s L" im1 ?h1]
      xd rd w_in(2) w_bias(2) im1 h1_len h1_dim by auto
  have h_r: "Linear_forward (W_r L) rela_embed = Inr (map (Linear_row (W_r L)) rela_embed)"
    using rd w_in(3) by (simp add: Linear_forward_def)
  have run: "CompGCN_forward winner L node_embed rela_embed edges mode
           = Inr (?h2, map (Linear_row (W_r L)) rela_embed)"
    unfolding CompGCN_forward_def original_edges_def reversed_edges_def
    by (simp only: loop comp lin b1 b2 h_r bindE_Inr prod.case)
  have "?h2 = map (\<lambda>d. map2 (+) (map2 (+) (h0 ! d) (?bo d)) (?bs d)) [0 ..< ?n]"
    by (intro map_cong) simp_all
  with run show "CompGCN_forward winner L node_embed rela_embed edges mode
           = Inr (map (\<lambda>d. map2 (+) (map2 (+) (h0 ! d) (?bo d)) (?bs d)) [0 ..< ?n],
                  map (Linear_row (W_r L)) rela_embed)"
    by simp
qed

theorem CompGCN_partition_witness:
  "original_edges compgcn_mix [(0, 0, 2), (1, 1, 0)] = [(0, 0, 2)]
   \<and> reversed_edges compgcn_mix [(0, 0, 2), (1, 1, 0)] = [(1, 1, 0)]
   \<and> CompGCN_forward last compgcn_mix [[1], [3], [0]] [[0], [0], [0]] [(0, 0, 2), (1, 1, 0)] ''add''
       = Inr ([[30], [0], [7]], [[0], [0], [0]])"
proof -
  have rng: "\<forall>e \<in> set [(0, 0, 2), (1, 1, 0)]. e_src e < length [[1::real], [3], [0]]
      \<and> e_rel e < length [[0::real], [0], [0]] \<and> e_dst e < length [[1::real], [3], [0]]"
    by (simp add: e_src_def e_rel_def e_dst_def)
  have xd: "\<forall>row \<in> set [[1::real], [3], [0]]. length row = 1"
    and rd: "\<forall>row \<in> set [[0::real], [0], [0]]. length row = 1"
    by simp_all
  have loop: "take_row [[0::real], [0], [0]] (num_rela compgcn_mix * 2) = Inr [0]"
    by (simp add: take_row_def compgcn_mix_def)
  have comp: "composition [[1], [3], [0]] [[0]] ''add'' = Inr (Some [[1], [3], [0]])"
    by (simp add: composition_def broadcast2m_def broadcast2_def)
  have self: "Linear_forward (W_i compgcn_mix) [[1], [3], [0]] = Inr [[0], [0], [0]]"
    by (simp add: compgcn_mix_def Linear_forward_def Linear_row_def dot_def)
  have split: "original_edges compgcn_mix [(0, 0, 2), (1, 1, 0)] = [(0, 0, 2)]"
      "reversed_edges compgcn_mix [(0, 0, 2), (1, 1, 0)] = [(1, 1, 0)]"
    by (simp_all add: original_edges_def reversed_edges_def compgcn_mix_def e_rel_def)
  have "CompGCN_forward last compgcn_mix [[1], [3], [0]] [[0], [0], [0]] [(0, 0, 2), (1, 1, 0)] ''add''
      = Inr (map (\<lambda>d. map2 (+)
                   (map2 (+) ([[0], [0], [0]] ! d)
                      (block_contribution last (W_o compgcn_mix) [[1], [3], [0]] [[0], [0], [0]]
                         (filter (\<lambda>e. e_rel e < num_rela compgcn_mix) [(0, 0, 2), (1, 1, 0)]) d))
                   (block_contribution last (W_s compgcn_mix) [[1], [3], [0]] [[0], [0], [0]]
                      (filter (\<lambda>e. e_rel e \<ge> num_rela compgcn_mix) [(0, 0, 2), (1, 1, 0)]) d))
               [0 ..< length [[1::real], [3], [0]]],
             map (Linear_row (W_r compgcn_mix)) [[0], [0], [0]])"
    using CompGCN_partition [OF valid_winner_last rng xd rd _ _ _ _ _ _ _ _ loop comp self]
    by (simp add: compgcn_mix_def)
  also have "\<dots> = Inr ([[30], [0], [7]], [[0], [0], [0]])"
    by (simp add: compgcn_mix_def block_contribution_def writes_to_def edge_message_def
        Linear_row_def dot_def e_src_def e_rel_def e_dst_def upt_rec)
  finally show ?thesis using split by simp
qed

section \<open>Determinism of the forward passes\<close>

lemma valid_winnerD: "valid_winner w \<Longrightarrow> ks \<noteq> [] \<Longrightarrow> w ks \<in> set ks"
  by (simp add: valid_winner_def)

lemma index_put_distinct:
  assumes "distinct idx" "valid_winner w1" "valid_winner w2"
  shows "index_put w1 xs idx vals = index_put w2 xs idx vals"
proof -
  have same: "w1 (k # ks) = w2 (k # ks)" if eq: "writes_to idx i = k # ks" for i k ks
  proof -
    have "w1 (k # ks) \<in> set (k # ks)" "w2 (k # ks) \<in> set (k # ks)"
      using valid_winnerD [OF assms(2), of "k # ks"] valid_winnerD [OF assms(3), of "k # ks"]
      by blast+
    then have "w1 (k # ks) \<in> set (writes_to idx i)" "w2 (k # ks) \<in> set (writes_to idx i)"
      using eq by simp_all
    then have "w1 (k # ks) < length idx" "w2 (k # ks) < length idx"
      "idx ! w1 (k # ks) = idx ! w2 (k # ks)"
      by (simp_all add: in_writes_to)
    then show ?thesis
      using assms(1) by (simp add: nth_eq_iff_index_eq)
  qed
  have "(case writes_to idx i of [] \<Rightarrow> xs ! i | k # ks \<Rightarrow> vals ! w1 (k # ks))
      = (case writes_to idx i of [] \<Rightarrow> xs ! i | k # ks \<Rightarrow> vals ! w2 (k # ks))" for i
    using same [of i] by (cases "writes_to idx i") simp_all
  then show ?thesis
    by (simp add: index_put_def)
qed

lemma edge_block_distinct:
  assumes "distinct (map e_dst sel)" "valid_winner w1" "valid_winner w2"
  shows "CompGCN_edge_block w1 W x r im h sel = CompGCN_edge_block w2 W x r im h sel"
  unfolding CompGCN_edge_block_def Let_def
  by (simp only: index_put_distinct [OF assms])

lemma RGCN_forward_distinct:
  assumes "distinct (map e_dst edges)" "valid_winner w1" "valid_winner w2"
  shows "RGCN_forward w1 L h edges = RGCN_forward w2 L h edges"
  unfolding RGCN_forward_def Let_def
  by (simp only: index_put_distinct [OF assms])

lemma CompGCN_forward_distinct:
  assumes "distinct (map e_dst (original_edges L edges))"
    "distinct (map e_dst (reversed_edges L edges))" "valid_winner w1" "valid_winner w2"
  shows "CompGCN_forward w1 L x r edges mode = CompGCN_forward w2 L x r edges mode"
  unfolding CompGCN_forward_def
  by (simp only: edge_block_distinct [OF assms(1) assms(3,4)]
      edge_block_distinct [OF assms(2) assms(3,4)])

text \<open>
  C9 (as amended).  A forward call on any of the five layers is a function of its inputs,
  the layer's parameters and the two things the tensor library decides: the slopes drawn
  by \<open>RReLU\<close> and the winner of repeated index writes.  Unless the layer is a REGCNLayer
  with the activation \<open>'rrelu'\<close> in training mode, two calls with the same inputs and
  parameters return the same result whatever slopes are drawn, provided the repeated index
  writes are resolved in the same way in both calls or the call has none (it has some only
  in RGCNLayer and CompGCNLayer, when two edges of one block share a destination).
\<close>

theorem forward_call_deterministic:
  assumes "\<not> draws_random l" and "valid_winner w1" and "valid_winner w2"
    and "w1 = w2 \<or> \<not> repeated_writes l args"
  shows "forward_call l noise1 w1 args = forward_call l noise2 w2 args"
proof (cases l)
  case (REGCN L)
  then have "regcn_active L \<noteq> Some RReLU \<or> \<not> regcn_training L"
    using assms(1) by simp
  then have "REGCN_forward L noise1 x ee es = REGCN_forward L noise2 x ee es" for x ee es
    by (rule REGCN_forward_noise_independent)
  then show ?thesis
    using REGCN by (cases args) simp_all
next
  case (WGCN L)
  then show ?thesis by (cases args) simp_all
next
  case (GCN L)
  then show ?thesis by (cases args) simp_all
next
  case (CompGCN L)
  show ?thesis
  proof (cases args)
    case (CompGCN_args x r es mode)
    have "CompGCN_forward w1 L x r es mode = CompGCN_forward w2 L x r es mode"
    proof (cases "w1 = w2")
      case True
      then show ?thesis by simp
    next
      case False
      with assms(4) CompGCN CompGCN_args
      have "distinct (map e_dst (original_edges L es))" "distinct (map e_dst (reversed_edges L es))"
        by simp_all
      then show ?thesis using assms(2,3) by (rule CompGCN_forward_distinct)
    qed
    then show ?thesis using CompGCN CompGCN_args by simp
  qed (use CompGCN in simp_all)
next
  case (RGCN L)
  show ?thesis
  proof (cases args)
    case (RGCN_args h es)
    have "RGCN_forward w1 L h es = RGCN_forward w2 L h es"
    proof (cases "w1 = w2")
      case True
      then show ?thesis by simp
    next
      case False
      with assms(4) RGCN RGCN_args have "distinct (map e_dst es)" by simp
      then show ?thesis using assms(2,3) by (rule RGCN_forward_distinct)
    qed
    then show ?thesis using RGCN RGCN_args by simp
  qed (use RGCN in simp_all)
qed

theorem forward_call_deterministic_witness:
  "forward_call (REGCN (regcn_ex ''tanh'')) (\<lambda>i j. 1 / 8) last
       (REGCN_args [[-1], [-1]] [[0]] [(0, 0, 1)])
     = forward_call (REGCN (regcn_ex ''tanh'')) (\<lambda>i j. 1 / 3) last
       (REGCN_args [[-1], [-1]] [[0]] [(0, 0, 1)])
   \<and> forward_call (RGCN rgcn_ex) (\<lambda>i j. 1 / 8) last (RGCN_args [[1], [3], [0]] [(0, 0, 1), (1, 0, 2)])
     = forward_call (RGCN rgcn_ex) (\<lambda>i j. 1 / 3) hd (RGCN_args [[1], [3], [0]] [(0, 0, 1), (1, 0, 2)])
   \<and> forward_call (RGCN rgcn_ex) (\<lambda>i j. 1 / 8) last (RGCN_args [[1], [3], [0]] [(0, 0, 1), (1, 0, 2)])
     = Inr (Nodes [[0], [1], [3]])"
proof -
  have a: "\<not> draws_random (REGCN (regcn_ex ''tanh''))"
    by (simp add: regcn_ex_def REGCN_init_def)
  have b: "\<not> draws_random (RGCN rgcn_ex)" by simp
  have c: "last = hd \<or> \<not> repeated_writes (RGCN rgcn_ex) (RGCN_args [[1], [3], [0]] [(0, 0, 1), (1, 0, 2)])"
    by (simp add: e_dst_def)
  have d: "forward_call (RGCN rgcn_ex) (\<lambda>i j. 1 / 8) last (RGCN_args [[1], [3], [0]] [(0, 0, 1), (1, 0, 2)])
     = Inr (Nodes [[0], [1], [3]])"
  proof -
    have "RGCN_forward last rgcn_ex [[1], [3], [0]] [(0, 0, 1), (1, 0, 2)] = Inr [[0], [1], [3]]"
      by code_simp
    then show ?thesis by simp
  qed
  have r1: "forward_call (REGCN (regcn_ex ''tanh'')) (\<lambda>i j. 1 / 8) last
       (REGCN_args [[-1], [-1]] [[0]] [(0, 0, 1)])
     = forward_call (REGCN (regcn_ex ''tanh'')) (\<lambda>i j. 1 / 3) last
       (REGCN_args [[-1], [-1]] [[0]] [(0, 0, 1)])"
    by (rule forward_call_deterministic [OF a valid_winner_last valid_winner_last]) simp
  have r2: "forward_call (RGCN rgcn_ex) (\<lambda>i j. 1 / 8) last (RGCN_args [[1], [3], [0]] [(0, 0, 1), (1, 0, 2)])
     = forward_call (RGCN rgcn_ex) (\<lambda>i j. 1 / 3) hd (RGCN_args [[1], [3], [0]] [(0, 0, 1), (1, 0, 2)])"
    by (rule forward_call_deterministic [OF b valid_winner_last valid_winner_hd c])
  show ?thesis
    using r1 r2 d by blast
qed

text \<open>
  C9 as stated fails for a REGCNLayer built with the default activation: two calls of
  \<open>forward\<close> with the same inputs and parameters, in which the generator draws the slopes
  \<open>1/8\<close> and \<open>1/3\<close>, return different embeddings.
\<close>

theorem REGCN_rrelu_counterexample:
  "REGCN_forward (regcn_ex ''rrelu'') (\<lambda>i j. 1 / 8) [[-1], [-1]] [[0]] [(0, 0, 1)]
   \<noteq> REGCN_forward (regcn_ex ''rrelu'') (\<lambda>i j. 1 / 3) [[-1], [-1]] [[0]] [(0, 0, 1)]"
  by (simp add: regcn_ex_def regcn_eval activate_def activation_entry_def enumerate_eq_zip)

end
